theory Spec2Isabelle
  imports Complex_Main "HOL-Library.Sublist" "HOL-Library.AList"
begin

section \<open>Python values and table rows\<close>

text \<open>
  The values that stand in the cells of the data frames: \<open>None\<close>, a string or a number.
  A row (a dict of \<open>parse_boq_structure\<close>, a pandas \<open>Series\<close> of \<open>iterrows\<close>) is the list
  of its labelled values; a label is a value too, as the header cell of a PDF table can
  be \<open>None\<close>. \<open>row.get(key, default)\<close> gives the default for a missing label only, a
  label that is present with the value \<open>None\<close> gives \<open>None\<close>.
\<close>

datatype pyval = PNone | PStr string | PNum rat

type_synonym series = "(pyval \<times> pyval) list"

definition row_get :: "series \<Rightarrow> string \<Rightarrow> pyval \<Rightarrow> pyval" where
  "row_get row key dflt = (case map_of row (PStr key) of Some v \<Rightarrow> v | None \<Rightarrow> dflt)"

text \<open>\<open>str(n)\<close> for a natural number: its decimal digits.\<close>

definition digit_char :: "nat \<Rightarrow> char" where
  "digit_char d = char_of (48 + d)"

fun str_nat :: "nat \<Rightarrow> string" where
  "str_nat n = (if n < 10 then [digit_char n] else str_nat (n div 10) @ [digit_char (n mod 10)])"

declare str_nat.simps [simp del]

definition is_digit :: "char \<Rightarrow> bool" where
  "is_digit c = (let n = (of_char c :: nat) in 48 \<le> n \<and> n \<le> 57)"

text \<open>
  The exceptions that the modelled code can raise: \<open>None.lower()\<close>, a column position
  that does not exist, and the two ways pandas refuses its input.
\<close>

datatype py_error = AttributeError | IndexError | ValueError | InvalidIndexError

definition pyval_of :: "string option \<Rightarrow> pyval" where
  "pyval_of x = (case x of None \<Rightarrow> PNone | Some s \<Rightarrow> PStr s)"

text \<open>A pandas data frame: the column labels and the rows, each as long as the labels.\<close>

record dataframe =
  columns :: "pyval list"
  rows :: "pyval list list"

definition iterrows :: "dataframe \<Rightarrow> series list" where
  "iterrows df = map (zip (columns df)) (rows df)"

text \<open>\<open>df.empty\<close>: no rows or no columns.\<close>

definition df_empty :: "dataframe \<Rightarrow> bool" where
  "df_empty df = (rows df = [] \<or> columns df = [])"

section \<open>Python strings\<close>

text \<open>
  A Python \<open>str\<close> is modelled as a \<open>string\<close>, each \<open>char\<close> read as one code point in
  the range U+0000 .. U+00FF. On that range \<open>str.lower()\<close> works character by
  character and stays inside the range: \<open>A\<close>..\<open>Z\<close> and U+00C0..U+00DE (without the
  multiplication sign U+00D7) move up by 32, every other code point is kept.
\<close>

definition lower_char :: "char \<Rightarrow> char" where
  "lower_char c =
     (let n = (of_char c :: nat) in
      if (65 \<le> n \<and> n \<le> 90) \<or> (192 \<le> n \<and> n \<le> 222 \<and> n \<noteq> 215)
      then char_of (n + 32) else c)"

definition lower :: "string \<Rightarrow> string" where
  "lower s = map lower_char s"

text \<open>
  \<open>str.upper()\<close>: \<open>a\<close>..\<open>z\<close> and U+00E0..U+00FE (without the division sign U+00F7)
  move down by 32. The upper-case forms of U+00B5, U+00DF and U+00FF are not single
  code points below 256; these three are kept as they are, and the source never
  upper-cases a string that holds one of them (it upper-cases the unit tokens and the
  matches of the standards patterns only).
\<close>

definition upper_char :: "char \<Rightarrow> char" where
  "upper_char c =
     (let n = (of_char c :: nat) in
      if (97 \<le> n \<and> n \<le> 122) \<or> (224 \<le> n \<and> n \<le> 254 \<and> n \<noteq> 247)
      then char_of (n - 32) else c)"

definition upper :: "string \<Rightarrow> string" where
  "upper s = map upper_char s"

text \<open>\<open>s.startswith(k)\<close> and the substring test \<open>k in s\<close>.\<close>

fun startswith :: "'a list \<Rightarrow> 'a list \<Rightarrow> bool" where
  "startswith s [] = True"
| "startswith [] (k # ks) = False"
| "startswith (c # cs) (k # ks) = (c = k \<and> startswith cs ks)"

fun py_in :: "'a list \<Rightarrow> 'a list \<Rightarrow> bool" where
  "py_in k [] = (k = [])"
| "py_in k (c # cs) = (startswith (c # cs) k \<or> py_in k cs)"

text \<open>
  The reading of "\<open>k\<close> is a case-insensitive substring of \<open>d\<close>": some contiguous
  segment of \<open>d\<close> equals \<open>k\<close> once both are lower-cased.
\<close>

definition ci_substring :: "string \<Rightarrow> string \<Rightarrow> bool" where
  "ci_substring k d = (\<exists>ps seg ss. d = ps @ seg @ ss \<and> lower seg = lower k)"

section \<open>boq_parser.py\<close>

subsection \<open>\<open>_extract_unit\<close>\<close>

definition units :: "string list" where
  "units = [''nos'', ''no'', ''pcs'', ''pc'', ''set'', ''meter'', ''m'', ''ft'', ''each'', ''ea'']"

text \<open>The \<open>for unit in units\<close> loop, with its early \<open>return\<close> and the final \<open>return 'NOS'\<close>.\<close>

fun scan_units :: "string list \<Rightarrow> string \<Rightarrow> string" where
  "scan_units [] desc_lower = ''NOS''"
| "scan_units (unit # rest) desc_lower =
     (if py_in unit desc_lower then upper unit else scan_units rest desc_lower)"

definition extract_unit :: "string \<Rightarrow> string" where
  "extract_unit description = (let desc_lower = lower description in scan_units units desc_lower)"

subsection \<open>\<open>_categorize_smoke_detector_item\<close>\<close>

text \<open>The \<open>categories\<close> dictionary; a Python dict iterates in insertion order.\<close>

definition categories :: "(string \<times> string list) list" where
  "categories =
    [(''Smoke Detectors'', [''smoke detector'', ''smoke alarm'', ''photoelectric'', ''ionization'', ''heat detector'']),
     (''Control Panels'', [''control panel'', ''facp'', ''fire alarm control'', ''annunciator'', ''repeater panel'']),
     (''Notification Devices'', [''horn'', ''strobe'', ''bell'', ''siren'', ''speaker'', ''notification'']),
     (''Initiation Devices'', [''pull station'', ''manual pull'', ''call point'', ''break glass'']),
     (''Installation Materials'', [''conduit'', ''wire'', ''cable'', ''junction box'', ''mounting bracket'', ''backbox'']),
     (''Testing Equipment'', [''test kit'', ''test meter'', ''megger'', ''smoke detector tester'']),
     (''Accessories'', [''battery'', ''power supply'', ''transformer'', ''relay'', ''module'']),
     (''System Components'', [''addressable'', ''conventional'', ''analog'', ''beam detector'', ''duct detector''])]"

text \<open>The \<open>for category, keywords in categories.items()\<close> loop; \<open>any(...)\<close> is \<open>list_ex\<close>.\<close>

fun scan_categories :: "(string \<times> string list) list \<Rightarrow> string \<Rightarrow> string" where
  "scan_categories [] desc_lower = ''Other''"
| "scan_categories ((category, keywords) # rest) desc_lower =
     (if list_ex (\<lambda>keyword. py_in keyword desc_lower) keywords then category
      else scan_categories rest desc_lower)"

definition categorize_smoke_detector_item :: "string \<Rightarrow> string" where
  "categorize_smoke_detector_item description =
     (let desc_lower = lower description in scan_categories categories desc_lower)"

section \<open>test_converter.py\<close>

text \<open>The \<open>Description\<close> column of \<open>create_sample_boq_data\<close>; U+00B0 is the degree sign.\<close>

definition sample_boq_descriptions :: "string list" where
  "sample_boq_descriptions =
    [''Addressable Photoelectric Smoke Detector, 24VDC'',
     ''Addressable Heat Detector, Fixed Temperature 135'' @ [CHR 0xB0] @ ''F'',
     ''Manual Pull Station, Single Action, Red'',
     ''Horn/Strobe Notification Device, 24VDC, Red'',
     ''Fire Alarm Control Panel, 8-Zone Addressable'',
     ''Remote Annunciator Panel, LCD Display'',
     ''Duct Smoke Detector with Housing'',
     ''Fire Alarm Wire, 18/2 FPLR, Red'',
     ''Conduit and Fittings for Installation'',
     ''Smoke Detector Test Kit with Aerosol Spray'']"

text \<open>The \<open>Category\<close> column of the same fixture.\<close>

definition sample_boq_categories :: "string list" where
  "sample_boq_categories =
    [''Smoke Detectors'', ''Smoke Detectors'', ''Initiation Devices'', ''Notification Devices'',
     ''Control Panels'', ''Control Panels'', ''System Components'', ''Installation Materials'',
     ''Installation Materials'', ''Testing Equipment'']"

section \<open>pdf_to_excel.py\<close>

subsection \<open>Document type detection in \<open>convert_pdf_to_excel\<close>\<close>

text \<open>
  The file is read in binary mode, so \<open>content\<close> is a \<open>bytes\<close> object: a list of
  8-bit values. \<open>str(content)\<close> is its printed literal: the letter \<open>b\<close>, a quote, the
  bytes one by one, the quote. The quote is the double quote when the content holds a
  single quote and no double quote, the single quote otherwise. A backslash or the
  chosen quote is preceded by a backslash; tab, line feed and carriage return are
  written \<open>\t\<close>, \<open>\n\<close>, \<open>\r\<close>; every other byte below 32 or from 127 on is written
  \<open>\xhh\<close> with two lower-case hexadecimal digits; a remaining byte is written as
  itself.
\<close>

type_synonym bytes = "char list"

definition hexdigits :: string where
  "hexdigits = ''0123456789abcdef''"

definition bytes_quote :: "bytes \<Rightarrow> char" where
  "bytes_quote content =
     (if CHR 0x27 \<in> set content \<and> CHR 0x22 \<notin> set content then CHR 0x22 else CHR 0x27)"

definition repr_byte :: "char \<Rightarrow> char \<Rightarrow> string" where
  "repr_byte quote c =
     (let n = (of_char c :: nat) in
      if c = quote \<or> c = CHR 0x5C then [CHR 0x5C, c]
      else if n = 9 then [CHR 0x5C, CHR ''t'']
      else if n = 10 then [CHR 0x5C, CHR ''n'']
      else if n = 13 then [CHR 0x5C, CHR ''r'']
      else if n < 32 \<or> 127 \<le> n
        then [CHR 0x5C, CHR ''x'', hexdigits ! (n div 16), hexdigits ! (n mod 16)]
      else [c])"

definition str_bytes :: "bytes \<Rightarrow> string" where
  "str_bytes content =
     (let quote = bytes_quote content
      in [CHR ''b'', quote] @ concat (map (repr_byte quote) content) @ [quote])"

text \<open>\<open>os.path.basename\<close> (POSIX): what follows the last slash.\<close>

definition basename :: "string \<Rightarrow> string" where
  "basename p = rev (takeWhile (\<lambda>c. c \<noteq> CHR ''/'') (rev p))"

text \<open>
  The \<open>doc_type == 'auto'\<close> branch, from the content read from the file and the path.
  The result is the new value of the string variable \<open>doc_type\<close>.
\<close>

definition detect_doc_type :: "bytes \<Rightarrow> string \<Rightarrow> string" where
  "detect_doc_type content pdf_path =
     (let content_lower = lower (str_bytes content) in
      if py_in ''bill of quantities'' content_lower \<or> py_in ''boq'' content_lower then ''boq''
      else if py_in ''specification'' content_lower \<or> py_in ''spec sheet'' content_lower then ''spec''
      else
        (let filename_lower = lower (basename pdf_path) in
         if py_in ''boq'' filename_lower \<or> py_in ''bill'' filename_lower then ''boq''
         else if py_in ''spec'' filename_lower then ''spec''
         else ''boq''))"

subsection \<open>The document type classifier of the specification\<close>

text \<open>
  Section 4.1 of the specification, in its own words and order, as a second function
  to compare \<open>detect_doc_type\<close> with. It takes the text decoded from the bytes of
  the document and the file name: the phrase \<open>bill of quantities\<close> or the token \<open>boq\<close>
  in the text, in any letter case, gives BOQ; else \<open>specification\<close> or \<open>spec sheet\<close> in
  the text gives SPEC; else \<open>boq\<close> or \<open>bill\<close> in the file name gives BOQ; else \<open>spec\<close> in
  the file name gives SPEC; else BOQ. The two results are written as the source
  writes them, \<open>boq\<close> and \<open>spec\<close>.
\<close>

definition spec_document_type_classifier :: "string \<Rightarrow> string \<Rightarrow> string" where
  "spec_document_type_classifier decoded filename =
     (let t = lower decoded; f = lower filename in
      if py_in ''bill of quantities'' t \<or> py_in ''boq'' t then ''boq''
      else if py_in ''specification'' t \<or> py_in ''spec sheet'' t then ''spec''
      else if py_in ''boq'' f \<or> py_in ''bill'' f then ''boq''
      else if py_in ''spec'' f then ''spec''
      else ''boq'')"

text \<open>
  The decoding of the specification is any lossy one; \<open>decode_latin1\<close> gives every
  byte the code point of its value, which is what every decoding that extends ASCII
  gives for the bytes below 128.
\<close>

definition decode_latin1 :: "bytes \<Rightarrow> string" where
  "decode_latin1 content = map (\<lambda>b. char_of (of_char b :: nat)) content"

text \<open>The bytes that \<open>str\<close> writes as themselves whatever the quote is.\<close>

definition plain :: "char \<Rightarrow> bool" where
  "plain c =
     (let n = (of_char c :: nat) in 32 \<le> n \<and> n < 127 \<and> n \<noteq> 0x5C \<and> n \<noteq> 0x27 \<and> n \<noteq> 0x22)"

section \<open>Python's \<open>re\<close> module\<close>

text \<open>
  The patterns of the source are written as terms of \<open>regex\<close>. A character class,
  a literal character or an escape such as \<open>\d\<close> is \<open>Sym\<close> with the set of characters
  it accepts. The matcher lists the ways a pattern can match at the start of a string,
  in the order in which a backtracking matcher tries them, each with the rest of the
  string and the groups captured so far; the first entry is the match that \<open>re\<close>
  reports. A greedy repetition tries one more round before it stops, a lazy one stops
  before it tries one more round; a round that consumes nothing is dropped, and none
  of the repeated subpatterns of the source can match the empty string.
\<close>

datatype regex =
    Sym "char \<Rightarrow> bool"
  | Eps
  | Seq regex regex
  | Alt regex regex
  | Star regex
  | LazyStar regex
  | Group nat regex
  | Eol

type_synonym groups = "(nat \<times> string) list"

fun star :: "(string \<Rightarrow> groups \<Rightarrow> (string \<times> groups) list) \<Rightarrow> nat \<Rightarrow> string \<Rightarrow> groups
    \<Rightarrow> (string \<times> groups) list" where
  "star f 0 s g = [(s, g)]"
| "star f (Suc n) s g =
     concat (map (\<lambda>(s', g'). if length s' < length s then star f n s' g' else []) (f s g)) @ [(s, g)]"

fun lazy_star :: "(string \<Rightarrow> groups \<Rightarrow> (string \<times> groups) list) \<Rightarrow> nat \<Rightarrow> string \<Rightarrow> groups
    \<Rightarrow> (string \<times> groups) list" where
  "lazy_star f 0 s g = [(s, g)]"
| "lazy_star f (Suc n) s g =
     (s, g) # concat (map (\<lambda>(s', g'). if length s' < length s then lazy_star f n s' g' else []) (f s g))"

text \<open>\<open>$\<close> holds at the end of the string and before a line feed that ends it.\<close>

primrec run :: "regex \<Rightarrow> string \<Rightarrow> groups \<Rightarrow> (string \<times> groups) list" where
  "run (Sym P) s g = (case s of [] \<Rightarrow> [] | c # cs \<Rightarrow> if P c then [(cs, g)] else [])"
| "run Eps s g = [(s, g)]"
| "run (Seq r1 r2) s g = concat (map (\<lambda>(s', g'). run r2 s' g') (run r1 s g))"
| "run (Alt r1 r2) s g = run r1 s g @ run r2 s g"
| "run (Star r) s g = star (run r) (length s) s g"
| "run (LazyStar r) s g = lazy_star (run r) (length s) s g"
| "run (Group n r) s g =
     map (\<lambda>(s', g'). (s', (n, take (length s - length s') s) # g')) (run r s g)"
| "run Eol s g = (if s = [] \<or> s = [CHR 0x0A] then [(s, g)] else [])"

definition Opt :: "regex \<Rightarrow> regex" where
  "Opt r = Alt r Eps"

definition Plus :: "regex \<Rightarrow> regex" where
  "Plus r = Seq r (Star r)"

definition LazyPlus :: "regex \<Rightarrow> regex" where
  "LazyPlus r = Seq r (LazyStar r)"

text \<open>
  A match: the matched text (group 0) and the captured groups. \<open>match_at\<close> is
  \<open>re.match\<close>, the match at the start of the string; \<open>m.group(n)\<close> is \<open>None\<close> for a
  group that took no part in the match.
\<close>

type_synonym match = "string \<times> groups"

definition match_at :: "regex \<Rightarrow> string \<Rightarrow> match option" where
  "match_at r s =
     (case run r s [] of [] \<Rightarrow> None | (s', g) # _ \<Rightarrow> Some (take (length s - length s') s, g))"

definition group :: "match \<Rightarrow> nat \<Rightarrow> string option" where
  "group m n = (if n = 0 then Some (fst m) else map_of (snd m) n)"

text \<open>\<open>re.search\<close>: the match at the first position that has one.\<close>

fun search :: "regex \<Rightarrow> string \<Rightarrow> match option" where
  "search r [] = match_at r []"
| "search r (c # cs) = (case match_at r (c # cs) of Some m \<Rightarrow> Some m | None \<Rightarrow> search r cs)"

text \<open>
  \<open>re.findall\<close> for a pattern without groups: the texts of the successive matches, each
  search starting where the last match ended (one character further after an empty
  match). The first argument bounds the number of steps; one more than the length of
  the string is always enough, as a step without a match and a step with a match
  both shorten the string.
\<close>

fun findall_steps :: "nat \<Rightarrow> regex \<Rightarrow> string \<Rightarrow> string list" where
  "findall_steps 0 r s = []"
| "findall_steps (Suc n) r s =
     (case match_at r s of
        None \<Rightarrow> (case s of [] \<Rightarrow> [] | c # cs \<Rightarrow> findall_steps n r cs)
      | Some m \<Rightarrow>
          if fst m = [] then [] # (case s of [] \<Rightarrow> [] | c # cs \<Rightarrow> findall_steps n r cs)
          else fst m # findall_steps n r (drop (length (fst m)) s))"

definition findall :: "regex \<Rightarrow> string \<Rightarrow> string list" where
  "findall r s = findall_steps (Suc (length s)) r s"

text \<open>
  Character sets, on the code points below 256. \<open>\s\<close> is Unicode white space: the
  ASCII controls 9 to 13 and 28 to 31, the space, U+0085 and U+00A0. \<open>\d\<close> is a decimal
  digit; below 256 these are \<open>0\<close> to \<open>9\<close>. The dot accepts all but the line feed.
\<close>

definition is_space :: "char \<Rightarrow> bool" where
  "is_space c =
     (let n = (of_char c :: nat) in (9 \<le> n \<and> n \<le> 13) \<or> (28 \<le> n \<and> n \<le> 32) \<or> n = 133 \<or> n = 160)"

definition is_ascii_letter :: "char \<Rightarrow> bool" where
  "is_ascii_letter c = (let n = (of_char c :: nat) in (65 \<le> n \<and> n \<le> 90) \<or> (97 \<le> n \<and> n \<le> 122))"

definition digit :: regex where
  "digit = Sym is_digit"

definition space :: regex where
  "space = Sym is_space"

definition anychar :: regex where
  "anychar = Sym (\<lambda>c. c \<noteq> CHR 0x0A)"

definition chr :: "char \<Rightarrow> regex" where
  "chr c = Sym (\<lambda>x. x = c)"

text \<open>
  Under \<open>re.IGNORECASE\<close> a literal character accepts the characters with the same
  lower-case form, and a range of letters accepts both cases.
\<close>

definition ci :: "char \<Rightarrow> regex" where
  "ci c = Sym (\<lambda>x. lower_char x = lower_char c)"

primrec lit :: "string \<Rightarrow> regex" where
  "lit [] = Eps"
| "lit (c # cs) = Seq (ci c) (lit cs)"

text \<open>The sequence of a list of patterns.\<close>

primrec seqs :: "regex list \<Rightarrow> regex" where
  "seqs [] = Eps"
| "seqs (r # rs) = Seq r (seqs rs)"

primrec alts :: "regex list \<Rightarrow> regex" where
  "alts [] = Sym (\<lambda>_. False)"
| "alts (r # rs) = (if rs = [] then r else Alt r (alts rs))"

section \<open>boq_parser.py: the line items\<close>

subsection \<open>Text mode: \<open>parse_boq_structure\<close>\<close>

text \<open>\<open>text.split('\n')\<close> and \<open>line.strip()\<close>; \<open>strip\<close> removes white space at both ends.\<close>

fun split_on :: "char \<Rightarrow> string \<Rightarrow> string list" where
  "split_on d [] = [[]]"
| "split_on d (c # cs) =
     (if c = d then [] # split_on d cs
      else (case split_on d cs of [] \<Rightarrow> [[c]] | l # ls \<Rightarrow> (c # l) # ls))"

definition strip :: "string \<Rightarrow> string" where
  "strip s = rev (dropWhile is_space (rev (dropWhile is_space s)))"

text \<open>
  The line pattern \<^verbatim>\<open>^(\d+\.?\d*)\s+(.+?)(?:\s+(\d+(?:\.\d+)?))?\s*$\<close>, used with
  \<open>re.match\<close>, which tries the start of the line only; there \<open>^\<close> holds.
\<close>

definition line_pattern :: regex where
  "line_pattern =
     seqs [Group 1 (seqs [Plus digit, Opt (chr CHR ''.''), Star digit]),
           Plus space,
           Group 2 (LazyPlus anychar),
           Opt (seqs [Plus space, Group 3 (seqs [Plus digit, Opt (seqs [chr CHR ''.'', Plus digit])])]),
           Star space,
           Eol]"

text \<open>
  The item built from a matching line. \<open>m.group(2)\<close> is passed to the two classifiers,
  which call \<open>.lower()\<close> on it; that raises for \<open>None\<close>.
\<close>

definition line_item :: "match \<Rightarrow> py_error + series" where
  "line_item item_match =
     (let item_no = group item_match 1;
          description = group item_match 2;
          quantity = (case group item_match 3 of
                        None \<Rightarrow> PNone
                      | Some q \<Rightarrow> if q \<noteq> [] then PStr q else PNone)
      in case description of
           None \<Rightarrow> Inl AttributeError
         | Some d \<Rightarrow>
             Inr [(PStr ''Item No'', pyval_of item_no),
                  (PStr ''Description'', PStr d),
                  (PStr ''Quantity'', quantity),
                  (PStr ''Unit'', PStr (extract_unit d)),
                  (PStr ''Category'', PStr (categorize_smoke_detector_item d))])"

text \<open>The loop over the lines; a line that does not match is passed over.\<close>

fun scan_lines :: "string list \<Rightarrow> py_error + series list" where
  "scan_lines [] = Inr []"
| "scan_lines (line # lines) =
     (case match_at line_pattern (strip line) of
        None \<Rightarrow> scan_lines lines
      | Some item_match \<Rightarrow>
          (case line_item item_match of
             Inl e \<Rightarrow> Inl e
           | Inr item \<Rightarrow>
               (case scan_lines lines of Inl e \<Rightarrow> Inl e | Inr items \<Rightarrow> Inr (item # items))))"

definition parse_boq_structure :: "string \<Rightarrow> py_error + series list" where
  "parse_boq_structure text = scan_lines (split_on (CHR 0x0A) text)"

text \<open>
  \<open>pd.DataFrame(items)\<close> for a list of dicts that all have the same keys in the same
  order: the keys are the columns. The empty list gives a frame without columns.
\<close>

definition frame_of_items :: "series list \<Rightarrow> dataframe" where
  "frame_of_items items =
     \<lparr>columns = (case items of [] \<Rightarrow> [] | item # _ \<Rightarrow> map fst item), rows = map (map snd) items\<rparr>"

subsection \<open>Table mode\<close>

text \<open>
  A raw table of the PDF library is a list of rows of cells, a cell being a string or
  \<open>None\<close>; the first row is the header. \<open>extract_tables\<close> passes over an empty table
  and makes \<open>pd.DataFrame(table[1:], columns=table[0])\<close> of the others: pandas pads a
  short row with nulls and raises when the longest row is not as long as the header.
\<close>

type_synonym table = "pyval list list"

definition pad :: "nat \<Rightarrow> pyval list \<Rightarrow> pyval list" where
  "pad n r = r @ replicate (n - length r) PNone"

definition frame_of_table :: "table \<Rightarrow> py_error + dataframe" where
  "frame_of_table t =
     (case t of
        [] \<Rightarrow> Inr \<lparr>columns = [], rows = []\<rparr>
      | header # body \<Rightarrow>
          if body = [] \<or> Max (set (map length body)) = length header
          then Inr \<lparr>columns = header, rows = map (pad (length header)) body\<rparr>
          else Inl ValueError)"

fun extract_tables :: "table list \<Rightarrow> py_error + dataframe list" where
  "extract_tables [] = Inr []"
| "extract_tables (t # ts) =
     (if t = [] then extract_tables ts
      else (case frame_of_table t of
              Inl e \<Rightarrow> Inl e
            | Inr df \<Rightarrow> (case extract_tables ts of Inl e \<Rightarrow> Inl e | Inr dfs \<Rightarrow> Inr (df # dfs))))"

text \<open>
  \<open>pd.concat(tables, ignore_index=True)\<close>. Frames with the same labels are put one
  under the other. Otherwise the columns are the labels in the order of their first
  appearance and a row has a null under a label its frame lacks; pandas refuses this
  when a frame has a label twice.
\<close>

definition first_labels :: "pyval list \<Rightarrow> pyval list" where
  "first_labels ls = rev (remdups (rev ls))"

definition reindex :: "pyval list \<Rightarrow> dataframe \<Rightarrow> pyval list list" where
  "reindex labels df =
     map (\<lambda>r. map (\<lambda>l. case map_of (zip (columns df) r) l of None \<Rightarrow> PNone | Some v \<Rightarrow> v) labels)
       (rows df)"

definition concat_frames :: "dataframe list \<Rightarrow> py_error + dataframe" where
  "concat_frames dfs =
     (case dfs of
        [] \<Rightarrow> Inl ValueError
      | df # _ \<Rightarrow>
          if list_all (\<lambda>d. columns d = columns df) dfs
          then Inr \<lparr>columns = columns df, rows = concat (map rows dfs)\<rparr>
          else if list_all (\<lambda>d. distinct (columns d)) dfs
          then (let labels = first_labels (concat (map columns dfs))
                in Inr \<lparr>columns = labels, rows = concat (map (reindex labels) dfs)\<rparr>)
          else Inl InvalidIndexError)"

text \<open>
  \<open>df.iloc[:, 1].apply(self._categorize_smoke_detector_item)\<close>: the second column by
  position, which must exist, and the classifier on each of its values; a value that
  is not a string has no \<open>lower\<close>.
\<close>

fun apply_categorize :: "pyval list \<Rightarrow> py_error + pyval list" where
  "apply_categorize [] = Inr []"
| "apply_categorize (v # vs) =
     (case v of
        PStr d \<Rightarrow>
          (case apply_categorize vs of
             Inl e \<Rightarrow> Inl e
           | Inr cs \<Rightarrow> Inr (PStr (categorize_smoke_detector_item d) # cs))
      | _ \<Rightarrow> Inl AttributeError)"

text \<open>
  \<open>df['Category'] = values\<close>: the values replace the column of that label where it
  exists and become a new last column where it does not.
\<close>

definition set_column :: "dataframe \<Rightarrow> pyval \<Rightarrow> pyval list \<Rightarrow> dataframe" where
  "set_column df label vs =
     (if label \<in> set (columns df)
      then df\<lparr>rows := map (\<lambda>(r, v). map (\<lambda>(l, x). if l = label then v else x) (zip (columns df) r))
                          (zip (rows df) vs)\<rparr>
      else \<lparr>columns = columns df @ [label], rows = map (\<lambda>(r, v). r @ [v]) (zip (rows df) vs)\<rparr>)"

definition categorize_frame :: "dataframe \<Rightarrow> py_error + dataframe" where
  "categorize_frame df =
     (if length (columns df) < 2 then Inl IndexError
      else (case apply_categorize (map (\<lambda>r. r ! 1) (rows df)) of
              Inl e \<Rightarrow> Inl e
            | Inr cs \<Rightarrow> Inr (set_column df (PStr ''Category'') cs)))"

subsection \<open>\<open>parse\<close>\<close>

text \<open>From the text and the raw tables of the document: the tables when there are any.\<close>

definition parse_boq :: "string \<Rightarrow> table list \<Rightarrow> py_error + dataframe" where
  "parse_boq text raw_tables =
     (case extract_tables raw_tables of
        Inl e \<Rightarrow> Inl e
      | Inr tables \<Rightarrow>
          if tables \<noteq> [] then
            (case concat_frames tables of Inl e \<Rightarrow> Inl e | Inr df \<Rightarrow> categorize_frame df)
          else
            (case parse_boq_structure text of
               Inl e \<Rightarrow> Inl e
             | Inr items \<Rightarrow> Inr (frame_of_items items)))"

text \<open>Every row of a frame is as long as its list of labels.\<close>

definition rows_fit :: "dataframe \<Rightarrow> bool" where
  "rows_fit df = (\<forall>r \<in> set (rows df). length r = length (columns df))"

subsection \<open>Two documents\<close>

text \<open>
  A table whose Unit cell is empty, as the PDF library returns it, and a text of three
  lines, the last of which is no item line.
\<close>

definition table_null_unit :: table where
  "table_null_unit =
     [[PStr ''Item No'', PStr ''Description'', PStr ''Quantity'', PStr ''Unit''],
      [PStr ''1'', PStr ''Smoke Detector'', PStr ''5'', PNone]]"

definition table_no_unit :: table where
  "table_no_unit =
     [[PStr ''Item No'', PStr ''Description'', PStr ''Quantity''],
      [PStr ''1'', PStr ''Smoke Detector'', PStr ''5'']]"

definition boq_text :: string where
  "boq_text = ''1 Fire Bells 12'' @ [CHR 0x0A] @ ''2.1  Conduit '' @ [CHR 0x0A] @ ''Total''"

section \<open>spec_sheet_parser.py\<close>

text \<open>\<open>sep.join(xs)\<close> and \<open>str.title()\<close>.\<close>

fun join :: "string \<Rightarrow> string list \<Rightarrow> string" where
  "join sep [] = []"
| "join sep [x] = x"
| "join sep (x # y # ys) = x @ sep @ join sep (y # ys)"

text \<open>
  A cased character is a letter with an upper or a lower case: below 256 the ASCII
  letters, U+00AA, U+00B5, U+00BA and U+00C0..U+00FF without the two arithmetic signs.
  \<open>title\<close> puts the first letter of every run of letters in upper case and the others
  in lower case. The source applies it to its own ASCII phrases only.
\<close>

definition is_cased :: "char \<Rightarrow> bool" where
  "is_cased c =
     (let n = (of_char c :: nat) in
      is_ascii_letter c \<or> n = 170 \<or> n = 181 \<or> n = 186 \<or> (192 \<le> n \<and> n \<noteq> 215 \<and> n \<noteq> 247))"

fun title_from :: "bool \<Rightarrow> string \<Rightarrow> string" where
  "title_from previous_is_cased [] = []"
| "title_from previous_is_cased (c # cs) =
     (if is_cased c
      then (if previous_is_cased then lower_char c else upper_char c) # title_from True cs
      else c # title_from False cs)"

definition title :: "string \<Rightarrow> string" where
  "title s = title_from False s"

subsection \<open>\<open>extract_product_info\<close>\<close>

text \<open>
  The character sets of the patterns, all used with \<open>re.IGNORECASE\<close>:
  \<^verbatim>\<open>[:\s]\<close>, \<^verbatim>\<open>[:\s#]\<close> and \<^verbatim>\<open>[A-Z0-9-]\<close>.
\<close>

definition colon_space :: regex where
  "colon_space = Sym (\<lambda>c. c = CHR '':'' \<or> is_space c)"

definition colon_space_hash :: regex where
  "colon_space_hash = Sym (\<lambda>c. c = CHR '':'' \<or> is_space c \<or> c = CHR 0x23)"

definition token_char :: "char \<Rightarrow> bool" where
  "token_char c = (is_ascii_letter c \<or> is_digit c \<or> c = CHR ''-'')"

text \<open>
  \<^verbatim>\<open>Model[:\s]+([A-Z0-9-]+)\<close>, \<^verbatim>\<open>Part[:\s#]+([A-Z0-9-]+)\<close> and
  \<^verbatim>\<open>SKU[:\s]+([A-Z0-9-]+)\<close>.
\<close>

definition model_patterns :: "regex list" where
  "model_patterns =
     [seqs [lit ''Model'', Plus colon_space, Group 1 (Plus (Sym token_char))],
      seqs [lit ''Part'', Plus colon_space_hash, Group 1 (Plus (Sym token_char))],
      seqs [lit ''SKU'', Plus colon_space, Group 1 (Plus (Sym token_char))]]"

definition product_types :: "string list" where
  "product_types =
     [''smoke detector'', ''heat detector'', ''control panel'', ''notification device'',
      ''horn'', ''strobe'', ''pull station'', ''duct detector'', ''beam detector'']"

text \<open>The \<open>info\<close> dictionary: its four keys with the empty string, then the updates.\<close>

definition info_init :: "(string \<times> pyval) list" where
  "info_init =
     [(''Product Name'', PStr ''''), (''Model Number'', PStr ''''),
      (''Manufacturer'', PStr ''''), (''Product Type'', PStr '''')]"

text \<open>
  \<open>for pattern in model_patterns\<close> with its \<open>break\<close>: the first pattern that has a match
  anywhere in the text sets the model number to its group 1.
\<close>

fun scan_model_patterns :: "regex list \<Rightarrow> string \<Rightarrow> (string \<times> pyval) list \<Rightarrow> (string \<times> pyval) list" where
  "scan_model_patterns [] text info = info"
| "scan_model_patterns (pattern # rest) text info =
     (case search pattern text of
        Some m \<Rightarrow> AList.update ''Model Number'' (pyval_of (group m 1)) info
      | None \<Rightarrow> scan_model_patterns rest text info)"

fun scan_product_types :: "string list \<Rightarrow> string \<Rightarrow> (string \<times> pyval) list \<Rightarrow> (string \<times> pyval) list" where
  "scan_product_types [] text_lower info = info"
| "scan_product_types (ptype # rest) text_lower info =
     (if py_in ptype text_lower then AList.update ''Product Type'' (PStr (title ptype)) info
      else scan_product_types rest text_lower info)"

definition extract_product_info :: "string \<Rightarrow> (string \<times> pyval) list" where
  "extract_product_info text =
     (let info = info_init;
          info = scan_model_patterns model_patterns text info;
          text_lower = lower text;
          info = scan_product_types product_types text_lower info
      in info)"

text \<open>\<open>info.get(key, default)\<close>.\<close>

definition dict_get :: "(string \<times> pyval) list \<Rightarrow> string \<Rightarrow> pyval \<Rightarrow> pyval" where
  "dict_get d key dflt = (case map_of d key of None \<Rightarrow> dflt | Some v \<Rightarrow> v)"

subsection \<open>\<open>extract_technical_specs\<close>\<close>

text \<open>
  The eight named patterns, in the order of the dictionary:
  \<^verbatim>\<open>(?:Operating\s+)?Voltage[:\s]+([0-9.-]+\s*(?:V|VAC|VDC))\<close>,
  \<^verbatim>\<open>Current[:\s]+([0-9.-]+\s*(?:mA|A))\<close>,
  \<^verbatim>\<open>Temperature[:\s]+(-?[0-9]+d?\s*[CF]?\s*to\s*-?[0-9]+d?\s*[CF])\<close> with the degree
  sign U+00B0 for \<open>d\<close>,
  \<^verbatim>\<open>Humidity[:\s]+([0-9]+%?\s*to\s*[0-9]+%)\<close>,
  \<^verbatim>\<open>Dimensions[:\s]+([0-9.]+\s*[xX]\s*[0-9.]+\s*[xX]?\s*[0-9.]*\s*(?:in|mm|cm))\<close> with
  the letter x or the multiplication sign U+00D7 for \<open>[xX]\<close>,
  \<^verbatim>\<open>Weight[:\s]+([0-9.]+\s*(?:kg|g|lb|oz))\<close>,
  \<^verbatim>\<open>Coverage[:\s]+([0-9,]+\s*(?:sq\.?\s*ft|ft2|m2))\<close> with the superscript two U+00B2
  for \<open>2\<close>, and
  \<^verbatim>\<open>Response[:\s]+([0-9.]+\s*(?:sec|seconds|min|minutes))\<close>.
\<close>

definition num_char :: "string \<Rightarrow> regex" where
  "num_char extra = Sym (\<lambda>c. is_digit c \<or> c \<in> set extra)"

definition times_char :: regex where
  "times_char = Sym (\<lambda>c. lower_char c = CHR ''x'' \<or> c = CHR 0xD7)"

definition tech_patterns :: "(string \<times> regex) list" where
  "tech_patterns =
     [(''Operating Voltage'',
        seqs [Opt (seqs [lit ''Operating'', Plus space]), lit ''Voltage'', Plus colon_space,
              Group 1 (seqs [Plus (num_char ''.-''), Star space,
                             alts [lit ''V'', lit ''VAC'', lit ''VDC'']])]),
      (''Current Draw'',
        seqs [lit ''Current'', Plus colon_space,
              Group 1 (seqs [Plus (num_char ''.-''), Star space, alts [lit ''mA'', lit ''A'']])]),
      (''Temperature Range'',
        seqs [lit ''Temperature'', Plus colon_space,
              Group 1 (seqs [Opt (chr CHR ''-''), Plus digit, Opt (chr (CHR 0xB0)), Star space,
                             Opt (Sym (\<lambda>c. lower_char c = CHR ''c'' \<or> lower_char c = CHR ''f'')),
                             Star space, lit ''to'', Star space,
                             Opt (chr CHR ''-''), Plus digit, Opt (chr (CHR 0xB0)), Star space,
                             Sym (\<lambda>c. lower_char c = CHR ''c'' \<or> lower_char c = CHR ''f'')])]),
      (''Humidity Range'',
        seqs [lit ''Humidity'', Plus colon_space,
              Group 1 (seqs [Plus digit, Opt (chr CHR ''%''), Star space, lit ''to'', Star space,
                             Plus digit, chr CHR ''%''])]),
      (''Dimensions'',
        seqs [lit ''Dimensions'', Plus colon_space,
              Group 1 (seqs [Plus (num_char ''.''), Star space, times_char, Star space,
                             Plus (num_char ''.''), Star space, Opt times_char, Star space,
                             Star (num_char ''.''), Star space,
                             alts [lit ''in'', lit ''mm'', lit ''cm'']])]),
      (''Weight'',
        seqs [lit ''Weight'', Plus colon_space,
              Group 1 (seqs [Plus (num_char ''.''), Star space,
                             alts [lit ''kg'', lit ''g'', lit ''lb'', lit ''oz'']])]),
      (''Coverage Area'',
        seqs [lit ''Coverage'', Plus colon_space,
              Group 1 (seqs [Plus (num_char '',''), Star space,
                             alts [seqs [lit ''sq'', Opt (chr CHR ''.''), Star space, lit ''ft''],
                                   seqs [lit ''ft'', chr (CHR 0xB2)],
                                   seqs [lit ''m'', chr (CHR 0xB2)]]])]),
      (''Response Time'',
        seqs [lit ''Response'', Plus colon_space,
              Group 1 (seqs [Plus (num_char ''.''), Star space,
                             alts [lit ''sec'', lit ''seconds'', lit ''min'', lit ''minutes'']])])]"

text \<open>The dictionary \<open>specs\<close>, in insertion order: one entry for every pattern that matches.\<close>

fun scan_tech_patterns :: "(string \<times> regex) list \<Rightarrow> string \<Rightarrow> (string \<times> pyval) list" where
  "scan_tech_patterns [] text = []"
| "scan_tech_patterns ((spec_name, pattern) # rest) text =
     (case search pattern text of
        Some m \<Rightarrow> (spec_name, pyval_of (group m 1)) # scan_tech_patterns rest text
      | None \<Rightarrow> scan_tech_patterns rest text)"

definition extract_technical_specs :: "string \<Rightarrow> (string \<times> pyval) list" where
  "extract_technical_specs text = scan_tech_patterns tech_patterns text"

subsection \<open>\<open>extract_standards_compliance\<close>\<close>

text \<open>
  \<^verbatim>\<open>UL\s*\d+[A-Z]?\<close>, \<^verbatim>\<open>NFPA\s*\d+\<close>, \<^verbatim>\<open>FM\s*Approved\<close>, \<^verbatim>\<open>CE\s*Certified\<close>,
  \<^verbatim>\<open>EN\s*\d+\<close>, \<^verbatim>\<open>ISO\s*\d+\<close>, \<^verbatim>\<open>BS\s*\d+\<close> and \<^verbatim>\<open>CSA\s*Certified\<close>.
\<close>

definition standard_patterns :: "regex list" where
  "standard_patterns =
     [seqs [lit ''UL'', Star space, Plus digit, Opt (Sym is_ascii_letter)],
      seqs [lit ''NFPA'', Star space, Plus digit],
      seqs [lit ''FM'', Star space, lit ''Approved''],
      seqs [lit ''CE'', Star space, lit ''Certified''],
      seqs [lit ''EN'', Star space, Plus digit],
      seqs [lit ''ISO'', Star space, Plus digit],
      seqs [lit ''BS'', Star space, Plus digit],
      seqs [lit ''CSA'', Star space, lit ''Certified'']]"

text \<open>The list \<open>standards\<close> after the loop: the upper-cased matches, pattern after pattern.\<close>

definition collect_standards :: "string \<Rightarrow> string list" where
  "collect_standards text = concat (map (\<lambda>pattern. map upper (findall pattern text)) standard_patterns)"


definition extract_standards_compliance :: "(string list \<Rightarrow> string list) \<Rightarrow> string \<Rightarrow> string list" where
  "extract_standards_compliance list_set text = list_set (collect_standards text)"

subsection \<open>\<open>extract_features\<close>\<close>

definition feature_keywords :: "string list" where
  "feature_keywords =
     [''addressable'', ''wireless'', ''photoelectric'', ''ionization'',
      ''multi-sensor'', ''dual sensor'', ''heat detection'', ''smoke detection'',
      ''tamper resistant'', ''led indicator'', ''test button'', ''low battery'',
      ''self-diagnostic'', ''drift compensation'', ''alarm memory'']"

definition extract_features :: "string \<Rightarrow> string list" where
  "extract_features text =
     (let text_lower = lower text
      in map title (filter (\<lambda>keyword. py_in keyword text_lower) feature_keywords))"

subsection \<open>\<open>parse\<close>\<close>

text \<open>
  A record of \<open>data\<close>. The tables of the document are read but only get a \<open>Source\<close>
  column of their own; the result does not depend on them.
\<close>

record spec_record =
  Category :: string
  Specification :: string
  Value :: pyval

definition parse_spec :: "(string list \<Rightarrow> string list) \<Rightarrow> string \<Rightarrow> table list \<Rightarrow> spec_record list" where
  "parse_spec list_set text tables =
     (let product_info = extract_product_info text;
          tech_specs = extract_technical_specs text;
          standards = extract_standards_compliance list_set text;
          features = extract_features text;
          data = [];
          data = data @ [\<lparr>Category = ''Product Information'', Specification = ''Model Number'',
                           Value = dict_get product_info ''Model Number'' (PStr ''N/A'')\<rparr>];
          data = data @ [\<lparr>Category = ''Product Information'', Specification = ''Product Type'',
                           Value = dict_get product_info ''Product Type'' (PStr ''N/A'')\<rparr>];
          data = data @ map (\<lambda>(spec_name, spec_value).
                     \<lparr>Category = ''Technical Specifications'', Specification = spec_name,
                      Value = spec_value\<rparr>) tech_specs;
          data = (if standards \<noteq> [] then
                    data @ [\<lparr>Category = ''Compliance'', Specification = ''Standards'',
                              Value = PStr (join '', '' standards)\<rparr>]
                  else data);
          data = (if features \<noteq> [] then
                    data @ [\<lparr>Category = ''Features'', Specification = ''Key Features'',
                              Value = PStr (join '', '' features)\<rparr>]
                  else data)
      in data)"

text \<open>
  The \<open>spec\<close> branch of \<open>convert_pdf_to_excel\<close> up to its test of \<open>df.empty\<close>: the frame
  of a list of records is empty when the list is.
\<close>

datatype conversion = No_data_extracted | Sheet_created nat

definition convert_spec :: "(string list \<Rightarrow> string list) \<Rightarrow> string \<Rightarrow> table list \<Rightarrow> conversion" where
  "convert_spec list_set text tables =
     (let df = parse_spec list_set text tables
      in if df = [] then No_data_extracted else Sheet_created (length df))"

subsection \<open>Patterns that do not tell the letter cases apart\<close>

text \<open>
  Every character set of the pattern accepts a character exactly when it accepts its
  upper-case form; all patterns used with \<open>re.IGNORECASE\<close> in the source are such.
\<close>

primrec case_blind :: "regex \<Rightarrow> bool" where
  "case_blind (Sym P) = (\<forall>c. P (upper_char c) = P c)"
| "case_blind Eps = True"
| "case_blind (Seq r1 r2) = (case_blind r1 \<and> case_blind r2)"
| "case_blind (Alt r1 r2) = (case_blind r1 \<and> case_blind r2)"
| "case_blind (Star r) = case_blind r"
| "case_blind (LazyStar r) = case_blind r"
| "case_blind (Group n r) = case_blind r"
| "case_blind Eol = True"

definition upper_groups :: "groups \<Rightarrow> groups" where
  "upper_groups g = map (\<lambda>(n, t). (n, upper t)) g"

definition upper_outcome :: "string \<times> groups \<Rightarrow> string \<times> groups" where
  "upper_outcome x = (upper (fst x), upper_groups (snd x))"


section \<open>excel_generator.py\<close>

subsection \<open>\<open>create_boq_sheet\<close>\<close>

text \<open>
  A worksheet is the content of its cells, by row and column, both counted from 1.
  A cell is blank, a number or a text; openpyxl keeps a formula as the text that
  starts with \<open>=\<close>. Fonts, fills, borders, merges and column widths are left out.
  \<open>ws.cell(row, column, value)\<close> writes the value unless it is \<open>None\<close>.
\<close>

datatype cell = Blank | Number rat | Text string

type_synonym worksheet = "nat \<times> nat \<Rightarrow> cell"

definition ws_cell :: "worksheet \<Rightarrow> nat \<Rightarrow> nat \<Rightarrow> pyval \<Rightarrow> worksheet" where
  "ws_cell ws row column v =
     (case v of PNone \<Rightarrow> ws | PStr s \<Rightarrow> ws((row, column) := Text s) | PNum q \<Rightarrow> ws((row, column) := Number q))"

text \<open>The header loop \<open>for col, header in enumerate(headers, start=1)\<close>.\<close>

definition boq_headers :: "string list" where
  "boq_headers = [''Item No'', ''Description'', ''Quantity'', ''Unit'', ''Category'', ''Unit Price'', ''Total Price'']"

definition write_headers :: "worksheet \<Rightarrow> nat \<Rightarrow> string list \<Rightarrow> worksheet" where
  "write_headers ws header_row headers =
     fold (\<lambda>(col, header) w. ws_cell w header_row col (PStr header)) (enumerate 1 headers) ws"

text \<open>
  The body of \<open>for idx, row in df.iterrows()\<close>. The frames of this program carry the
  default index, so \<open>idx\<close> counts the rows from 0.
\<close>

definition write_boq_row :: "nat \<Rightarrow> worksheet \<Rightarrow> nat \<times> series \<Rightarrow> worksheet" where
  "write_boq_row data_start_row ws ir =
     (let idx = fst ir; row = snd ir;
          row_num = data_start_row + idx;
          ws = ws_cell ws row_num 1 (row_get row ''Item No'' (PStr ''''));
          ws = ws_cell ws row_num 2 (row_get row ''Description'' (PStr ''''));
          ws = ws_cell ws row_num 3 (row_get row ''Quantity'' (PStr ''''));
          ws = ws_cell ws row_num 4 (row_get row ''Unit'' (PStr ''NOS''));
          ws = ws_cell ws row_num 5 (row_get row ''Category'' (PStr ''Other''));
          ws = ws_cell ws row_num 6 (PNum 0);
          ws = ws_cell ws row_num 7 (PStr (''=C'' @ str_nat row_num @ ''*F'' @ str_nat row_num))
      in ws)"

text \<open>The sheet; \<open>now\<close> is the formatted time stamp \<open>datetime.now().strftime(...)\<close>.\<close>

definition create_boq_sheet :: "string \<Rightarrow> series list \<Rightarrow> worksheet" where
  "create_boq_sheet now df =
     (let ws = (\<lambda>_. Blank);
          ws = ws_cell ws 1 1 (PStr ''BILL OF QUANTITIES - SMOKE DETECTION SYSTEM'');
          ws = ws_cell ws 2 1 (PStr (''Generated: '' @ now));
          header_row = 4;
          ws = write_headers ws header_row boq_headers;
          data_start_row = header_row + 1;
          ws = fold (\<lambda>ir w. write_boq_row data_start_row w ir) (enumerate 0 df) ws;
          last_data_row = data_start_row + length df;
          summary_row = last_data_row + 2;
          ws = ws_cell ws summary_row 6 (PStr ''TOTAL:'');
          ws = ws_cell ws summary_row 7
                 (PStr (''=SUM(G'' @ str_nat data_start_row @ '':G'' @ str_nat last_data_row @ '')''))
      in ws)"

subsection \<open>What the spreadsheet computes from the formulas\<close>

text \<open>
  The formulas are evaluated by the spreadsheet application when the file is opened,
  not by this program. The reading below covers the two shapes that
  \<open>create_boq_sheet\<close> writes: the product of two cells \<open>=C5*F5\<close> and the sum of a
  range \<open>=SUM(G5:G7)\<close>, with one-letter column names. As an operand of a product a
  blank cell counts 0 and a text that is not a formula is converted by the
  application's own rule, which is the parameter \<open>coerce\<close>; in a sum a blank cell and
  a text count 0. \<open>None\<close> is an error value. The first argument of \<open>cell_value\<close>
  bounds the depth of references from formula to formula.
\<close>

definition nat_of_digits :: "string \<Rightarrow> nat" where
  "nat_of_digits ds = foldl (\<lambda>a c. 10 * a + (of_char c - 48)) 0 ds"

datatype formula = Product "nat \<times> nat" "nat \<times> nat" | SumRange "nat \<times> nat" "nat \<times> nat"

fun read_ref :: "string \<Rightarrow> ((nat \<times> nat) \<times> string) option" where
  "read_ref [] = None"
| "read_ref (c # s) =
     (let n = (of_char c :: nat); ds = takeWhile is_digit s in
      if 65 \<le> n \<and> n \<le> 90 \<and> ds \<noteq> [] then Some ((nat_of_digits ds, n - 64), dropWhile is_digit s)
      else None)"

definition read_formula :: "string \<Rightarrow> formula option" where
  "read_formula s =
     (if startswith s ''=SUM('' then
        (case read_ref (drop 5 s) of
           None \<Rightarrow> None
         | Some (a, t) \<Rightarrow>
            (if startswith t '':'' then
               (case read_ref (drop 1 t) of
                  None \<Rightarrow> None
                | Some (b, u) \<Rightarrow> if u = '')'' then Some (SumRange a b) else None)
             else None))
      else if startswith s ''='' then
        (case read_ref (drop 1 s) of
           None \<Rightarrow> None
         | Some (a, t) \<Rightarrow>
            (if startswith t ''*'' then
               (case read_ref (drop 1 t) of
                  None \<Rightarrow> None
                | Some (b, u) \<Rightarrow> if u = [] then Some (Product a b) else None)
             else None))
      else None)"

definition is_formula :: "string \<Rightarrow> bool" where
  "is_formula s = (1 < length s \<and> startswith s ''='')"

datatype use = Operand | Summand

definition range_refs :: "nat \<times> nat \<Rightarrow> nat \<times> nat \<Rightarrow> (nat \<times> nat) list" where
  "range_refs a b = concat (map (\<lambda>r. map (\<lambda>c. (r, c)) [snd a..<Suc (snd b)]) [fst a..<Suc (fst b)])"

fun cell_value :: "(string \<Rightarrow> rat option) \<Rightarrow> nat \<Rightarrow> worksheet \<Rightarrow> use \<Rightarrow> nat \<times> nat \<Rightarrow> rat option" where
  "cell_value coerce 0 ws u ref = None"
| "cell_value coerce (Suc k) ws u ref =
     (case ws ref of
        Blank \<Rightarrow> Some 0
      | Number q \<Rightarrow> Some q
      | Text s \<Rightarrow>
         (if is_formula s then
            (case read_formula s of
               None \<Rightarrow> None
             | Some (Product a b) \<Rightarrow>
                (case cell_value coerce k ws Operand a of
                   None \<Rightarrow> None
                 | Some x \<Rightarrow>
                    (case cell_value coerce k ws Operand b of
                       None \<Rightarrow> None
                     | Some y \<Rightarrow> Some (x * y)))
             | Some (SumRange a b) \<Rightarrow>
                map_option sum_list (those (map (cell_value coerce k ws Summand) (range_refs a b))))
          else (case u of Operand \<Rightarrow> coerce s | Summand \<Rightarrow> Some 0)))"

text \<open>The number that the Quantity cell of a row stands for in a product.\<close>

definition quantity_number :: "(string \<Rightarrow> rat option) \<Rightarrow> series \<Rightarrow> rat option" where
  "quantity_number coerce row =
     (case row_get row ''Quantity'' (PStr '''') of
        PNone \<Rightarrow> Some 0
      | PNum x \<Rightarrow> Some x
      | PStr s \<Rightarrow> if is_formula s then None else coerce s)"

text \<open>Two rows with the quantities 4 and 10.\<close>

definition df2 :: "series list" where
  "df2 = [[(PStr ''Item No'', PStr ''1''), (PStr ''Description'', PStr ''Fire Alarm Wire''), (PStr ''Quantity'', PNum 4)],
          [(PStr ''Item No'', PStr ''2''), (PStr ''Description'', PStr ''Conduit''), (PStr ''Quantity'', PNum 10)]]"

section \<open>Substring search\<close>

lemma startswith_iff: "startswith s k \<longleftrightarrow> (\<exists>ss. s = k @ ss)"
  by (induction s k rule: startswith.induct) auto

lemma py_in_iff: "py_in k s \<longleftrightarrow> (\<exists>ps ss. s = ps @ k @ ss)"
proof (induction s)
  case Nil
  then show ?case by auto
next
  case (Cons c cs)
  show ?case
  proof
    assume "py_in k (c # cs)"
    then consider "startswith (c # cs) k" | "py_in k cs" by auto
    then show "\<exists>ps ss. c # cs = ps @ k @ ss"
    proof cases
      case 1
      then obtain ss where "c # cs = k @ ss" by (auto simp: startswith_iff)
      then have "c # cs = [] @ k @ ss" by simp
      then show ?thesis by blast
    next
      case 2
      then obtain ps ss where "cs = ps @ k @ ss" using Cons.IH by blast
      then have "c # cs = (c # ps) @ k @ ss" by simp
      then show ?thesis by blast
    qed
  next
    assume "\<exists>ps ss. c # cs = ps @ k @ ss"
    then obtain ps ss where eq: "c # cs = ps @ k @ ss" by blast
    show "py_in k (c # cs)"
    proof (cases ps)
      case Nil
      with eq have "startswith (c # cs) k" by (auto simp: startswith_iff)
      then show ?thesis by simp
    next
      case (Cons p ps')
      with eq have "cs = ps' @ k @ ss" by simp
      then have "py_in k cs" using Cons.IH by blast
      then show ?thesis by simp
    qed
  qed
qed

lemma py_in_sublist: "py_in k s \<longleftrightarrow> sublist k s"
  by (simp add: py_in_iff sublist_def)

text \<open>
  For a keyword that is already in lower case, the source's test
  \<open>keyword in description.lower()\<close> is the case-insensitive substring test.
\<close>

lemma ci_substring_iff:
  assumes "lower k = k"
  shows "ci_substring k d \<longleftrightarrow> py_in k (lower d)"
proof
  assume "ci_substring k d"
  then obtain ps seg ss where "d = ps @ seg @ ss" "lower seg = lower k"
    by (auto simp: ci_substring_def)
  with assms have "lower d = lower ps @ k @ lower ss" by (simp add: lower_def)
  then show "py_in k (lower d)" unfolding py_in_iff by blast
next
  assume "py_in k (lower d)"
  then obtain ps ss where "map lower_char d = ps @ k @ ss"
    by (auto simp: py_in_iff lower_def)
  then obtain ps' r where 1: "d = ps' @ r" "map lower_char r = k @ ss"
    by (metis map_eq_append_conv)
  then obtain seg ss' where "r = seg @ ss'" "map lower_char seg = k"
    by (metis map_eq_append_conv)
  with 1 have "d = ps' @ seg @ ss'" "map lower_char seg = k" by simp_all
  with assms show "ci_substring k d" unfolding ci_substring_def lower_def by auto
qed

section \<open>The category classifier\<close>

lemma scan_categories_find:
  "scan_categories cats dl =
     (case find (\<lambda>(c, kws). list_ex (\<lambda>k. py_in k dl) kws) cats of
        None \<Rightarrow> ''Other'' | Some (c, kws) \<Rightarrow> c)"
  by (induction cats dl rule: scan_categories.induct) auto

lemma categories_lower: "\<forall>(c, kws) \<in> set categories. \<forall>k \<in> set kws. lower k = k"
  by (simp add: categories_def lower_def lower_char_def char_of_eq_iff)

lemma categorize_find:
  "categorize_smoke_detector_item d =
     (case find (\<lambda>(c, kws). \<exists>k \<in> set kws. ci_substring k d) categories of
        None \<Rightarrow> ''Other'' | Some (c, kws) \<Rightarrow> c)"
proof -
  have "find (\<lambda>(c, kws). list_ex (\<lambda>k. py_in k (lower d)) kws) categories
      = find (\<lambda>(c, kws). \<exists>k \<in> set kws. ci_substring k d) categories"
  proof (rule find_cong)
    fix x assume x: "x \<in> set categories"
    obtain c kws where [simp]: "x = (c, kws)" by (cases x)
    from x categories_lower have "\<forall>k \<in> set kws. lower k = k" by fastforce
    then show "(case x of (c, kws) \<Rightarrow> list_ex (\<lambda>k. py_in k (lower d)) kws)
        = (case x of (c, kws) \<Rightarrow> \<exists>k \<in> set kws. ci_substring k d)"
      by (simp add: list_ex_iff ci_substring_iff)
  qed simp
  then show ?thesis
    by (simp add: categorize_smoke_detector_item_def scan_categories_find)
qed

lemma categorize_addressable_heat_detector:
  "categorize_smoke_detector_item ''addressable heat detector'' = ''Smoke Detectors''"
  by code_simp

lemma addressable_heat_detector_two_categories:
  "ci_substring ''heat detector'' ''addressable heat detector''
   \<and> ci_substring ''addressable'' ''addressable heat detector''"
proof -
  have "lower ''heat detector'' = ''heat detector''" "lower ''addressable'' = ''addressable''"
    by code_simp+
  moreover have "py_in ''heat detector'' (lower ''addressable heat detector'')"
    "py_in ''addressable'' (lower ''addressable heat detector'')"
    by code_simp+
  ultimately show ?thesis by (simp add: ci_substring_iff)
qed

text \<open>
  C1. For every description the classifier returns the first category of the table, in
  the order Smoke Detectors, Control Panels, Notification Devices, Initiation Devices,
  Installation Materials, Testing Equipment, Accessories, System Components, one of
  whose keywords is a case-insensitive substring of the description, and \<open>Other\<close> when
  there is none. The description \<open>addressable heat detector\<close> holds a keyword of Smoke
  Detectors and a keyword of System Components and is assigned to Smoke Detectors.
\<close>

theorem categorize_first_match:
  "categorize_smoke_detector_item d =
     (case find (\<lambda>(c, kws). \<exists>k \<in> set kws. ci_substring k d) categories of
        None \<Rightarrow> ''Other'' | Some (c, kws) \<Rightarrow> c)
   \<and> map fst categories =
       [''Smoke Detectors'', ''Control Panels'', ''Notification Devices'', ''Initiation Devices'',
        ''Installation Materials'', ''Testing Equipment'', ''Accessories'', ''System Components'']
   \<and> ''heat detector'' \<in> set (the (map_of categories ''Smoke Detectors''))
   \<and> ''addressable'' \<in> set (the (map_of categories ''System Components''))
   \<and> ci_substring ''heat detector'' ''addressable heat detector''
   \<and> ci_substring ''addressable'' ''addressable heat detector''
   \<and> categorize_smoke_detector_item ''addressable heat detector'' = ''Smoke Detectors''"
proof -
  have "map fst categories =
       [''Smoke Detectors'', ''Control Panels'', ''Notification Devices'', ''Initiation Devices'',
        ''Installation Materials'', ''Testing Equipment'', ''Accessories'', ''System Components'']"
    by (simp add: categories_def)
  moreover have "''heat detector'' \<in> set (the (map_of categories ''Smoke Detectors''))"
    by (simp add: categories_def)
  moreover have "''addressable'' \<in> set (the (map_of categories ''System Components''))"
    by (simp add: categories_def)
  ultimately show ?thesis
    using categorize_find [of d] categorize_addressable_heat_detector
      addressable_heat_detector_two_categories
    by simp
qed

theorem categorize_first_match_witness:
  "(case find (\<lambda>(c, kws). \<exists>k \<in> set kws. ci_substring k ''Fire Alarm Wire, 18/2 FPLR, Red'')
      categories of None \<Rightarrow> ''Other'' | Some (c, kws) \<Rightarrow> c) = ''Installation Materials''"
proof -
  have "categorize_smoke_detector_item ''Fire Alarm Wire, 18/2 FPLR, Red'' = ''Installation Materials''"
    by code_simp
  then show ?thesis
    using categorize_first_match [of "''Fire Alarm Wire, 18/2 FPLR, Red''"] by simp
qed

text \<open>
  C2. On the ten descriptions of the sample fixture the classifier does not return the
  fixture's own category column: \<open>Duct Smoke Detector with Housing\<close> and
  \<open>Smoke Detector Test Kit with Aerosol Spray\<close> both hold the keyword
  \<open>smoke detector\<close> of the first category and come out as Smoke Detectors, where the
  fixture lists System Components and Testing Equipment.
\<close>

theorem categorize_sample_boq:
  "map categorize_smoke_detector_item sample_boq_descriptions =
     [''Smoke Detectors'', ''Smoke Detectors'', ''Initiation Devices'', ''Notification Devices'',
      ''Control Panels'', ''Control Panels'', ''Smoke Detectors'', ''Installation Materials'',
      ''Installation Materials'', ''Smoke Detectors'']
   \<and> map categorize_smoke_detector_item sample_boq_descriptions \<noteq> sample_boq_categories
   \<and> categorize_smoke_detector_item ''Duct Smoke Detector with Housing'' = ''Smoke Detectors''
   \<and> categorize_smoke_detector_item ''Smoke Detector Test Kit with Aerosol Spray'' = ''Smoke Detectors''"
proof -
  have 1: "map categorize_smoke_detector_item sample_boq_descriptions =
     [''Smoke Detectors'', ''Smoke Detectors'', ''Initiation Devices'', ''Notification Devices'',
      ''Control Panels'', ''Control Panels'', ''Smoke Detectors'', ''Installation Materials'',
      ''Installation Materials'', ''Smoke Detectors'']"
    by code_simp
  have 2: "categorize_smoke_detector_item ''Duct Smoke Detector with Housing'' = ''Smoke Detectors''"
    by code_simp
  have 3: "categorize_smoke_detector_item ''Smoke Detector Test Kit with Aerosol Spray'' = ''Smoke Detectors''"
    by code_simp
  show ?thesis unfolding 1 2 3 by (simp add: sample_boq_categories_def)
qed

text \<open>
  The keyword \<open>smoke detector tester\<close> of Testing Equipment can never decide: a
  description that holds it holds \<open>smoke detector\<close>, which the first category claims.
\<close>

lemma smoke_detector_tester_shadowed:
  assumes "ci_substring ''smoke detector tester'' d"
  shows "categorize_smoke_detector_item d = ''Smoke Detectors''"
proof -
  have "lower ''smoke detector tester'' = ''smoke detector tester''" by code_simp
  with assms have "py_in ''smoke detector tester'' (lower d)" by (simp add: ci_substring_iff)
  then obtain ps ss where "lower d = ps @ ''smoke detector tester'' @ ss"
    unfolding py_in_iff by blast
  then have "lower d = ps @ ''smoke detector'' @ ('' tester'' @ ss)" by simp
  then have "py_in ''smoke detector'' (lower d)" unfolding py_in_iff by blast
  then show ?thesis
    by (simp add: categorize_smoke_detector_item_def categories_def)
qed

section \<open>The unit inferer\<close>

lemma scan_units_find:
  "scan_units us dl = (case find (\<lambda>u. py_in u dl) us of None \<Rightarrow> ''NOS'' | Some u \<Rightarrow> upper u)"
  by (induction us) auto

text \<open>
  C3. For every description the unit is the upper-cased form of the first of the tokens
  nos, no, pcs, pc, set, meter, m, ft, each, ea, in that order, that is a substring of
  the lower-cased description, and \<open>NOS\<close> when none of the ten is.
\<close>

theorem extract_unit_first_token:
  "extract_unit d =
     (case find (\<lambda>u. \<exists>ps ss. lower d = ps @ u @ ss) units of
        None \<Rightarrow> ''NOS'' | Some u \<Rightarrow> upper u)
   \<and> units = [''nos'', ''no'', ''pcs'', ''pc'', ''set'', ''meter'', ''m'', ''ft'', ''each'', ''ea'']
   \<and> map upper units = [''NOS'', ''NO'', ''PCS'', ''PC'', ''SET'', ''METER'', ''M'', ''FT'', ''EACH'', ''EA'']"
proof -
  have "map upper units = [''NOS'', ''NO'', ''PCS'', ''PC'', ''SET'', ''METER'', ''M'', ''FT'', ''EACH'', ''EA'']"
    by code_simp
  then show ?thesis
    by (simp add: extract_unit_def scan_units_find py_in_iff units_def)
qed

text \<open>
  C4, as the code has it. \<open>1000 FT of FPLR wire\<close> gives \<open>FT\<close>. \<open>50 smoke detectors\<close>
  does not fall through to the default: the token \<open>m\<close> is a substring of it (in
  \<open>smoke\<close>), none of the six tokens listed before \<open>m\<close> is, and the result is \<open>M\<close>.
\<close>

theorem extract_unit_examples:
  "extract_unit ''1000 FT of FPLR wire'' = ''FT''
   \<and> extract_unit ''50 smoke detectors'' = ''M''
   \<and> py_in ''m'' (lower ''50 smoke detectors'')
   \<and> find (\<lambda>u. py_in u (lower ''50 smoke detectors'')) units = Some ''m''"
  by code_simp

theorem extract_unit_smoke_detectors_counterexample:
  "\<not> (extract_unit ''1000 FT of FPLR wire'' = ''FT''
      \<and> extract_unit ''50 smoke detectors'' = ''NOS'')"
proof -
  have "extract_unit ''50 smoke detectors'' = ''M''" by code_simp
  then show ?thesis by simp
qed

section \<open>Document type detection\<close>

lemma repr_byte_plain:
  assumes "q = CHR 0x27 \<or> q = CHR 0x22" "plain c"
  shows "repr_byte q c = [c]"
  using assms by (auto simp: plain_def repr_byte_def Let_def)

lemma bytes_quote_cases: "bytes_quote c = CHR 0x27 \<or> bytes_quote c = CHR 0x22"
  by (simp add: bytes_quote_def)

lemma concat_repr_plain:
  assumes "q = CHR 0x27 \<or> q = CHR 0x22" "\<forall>c \<in> set k. plain c"
  shows "concat (map (repr_byte q) k) = k"
  using assms(2) by (induction k) (simp_all add: repr_byte_plain [OF assms(1)])

text \<open>A run of plain bytes of the content stands unchanged in \<open>str(content)\<close>.\<close>

lemma str_bytes_segment:
  assumes "\<forall>c \<in> set k. plain c"
  shows "\<exists>ps' ss'. str_bytes (ps @ k @ ss) = ps' @ k @ ss'"
proof -
  let ?q = "bytes_quote (ps @ k @ ss)"
  have "str_bytes (ps @ k @ ss) =
      ([CHR ''b'', ?q] @ concat (map (repr_byte ?q) ps)) @ k @ (concat (map (repr_byte ?q) ss) @ [?q])"
    using concat_repr_plain [OF bytes_quote_cases assms, of "ps @ k @ ss"]
    by (simp add: str_bytes_def Let_def)
  then show ?thesis by blast
qed

lemma lower_char_letter:
  assumes "lower_char c = x"
    and "of_char x = (32::nat) \<or> (97 \<le> (of_char x :: nat) \<and> (of_char x :: nat) \<le> 122)"
  shows "plain c"
proof -
  define n where "n = (of_char c :: nat)"
  consider (A) "65 \<le> n \<and> n \<le> 90" | (B) "192 \<le> n \<and> n \<le> 222 \<and> n \<noteq> 215"
    | (C) "\<not> (65 \<le> n \<and> n \<le> 90)" "\<not> (192 \<le> n \<and> n \<le> 222 \<and> n \<noteq> 215)"
    by blast
  then show ?thesis
  proof cases
    case A
    then show ?thesis by (simp add: plain_def n_def [symmetric])
  next
    case B
    then have "x = char_of (n + 32)" using assms(1) by (simp add: lower_char_def n_def [symmetric])
    then have "(of_char x :: nat) = n + 32" using B by simp
    with B assms(2) show ?thesis by simp
  next
    case C
    then have "x = c" using assms(1) by (auto simp: lower_char_def n_def [symmetric])
    with assms(2) show ?thesis by (auto simp: plain_def)
  qed
qed

lemma lower_plain:
  assumes "lower k = p"
    and "\<forall>x \<in> set p. of_char x = (32::nat) \<or> (97 \<le> (of_char x :: nat) \<and> (of_char x :: nat) \<le> 122)"
  shows "\<forall>c \<in> set k. plain c"
proof
  fix c assume "c \<in> set k"
  then have "lower_char c \<in> set p" using assms(1) by (auto simp: lower_def)
  with assms(2) show "plain c" using lower_char_letter by blast
qed

text \<open>
  A phrase of lower-case letters and spaces that occurs in the content bytes, in any
  letter case, occurs in the lower-cased \<open>str(content)\<close>.
\<close>

lemma content_phrase:
  assumes "ci_substring p content" "lower p = p"
    and "\<forall>x \<in> set p. of_char x = (32::nat) \<or> (97 \<le> (of_char x :: nat) \<and> (of_char x :: nat) \<le> 122)"
  shows "py_in p (lower (str_bytes content))"
proof -
  from assms(1,2) obtain ps seg ss where c: "content = ps @ seg @ ss" and l: "lower seg = p"
    by (auto simp: ci_substring_def)
  have "\<forall>c \<in> set seg. plain c" using lower_plain [OF l assms(3)] .
  then obtain ps' ss' where "str_bytes (ps @ seg @ ss) = ps' @ seg @ ss'"
    using str_bytes_segment by blast
  then have "lower (str_bytes content) = lower ps' @ p @ lower ss'"
    using c l by (simp add: lower_def)
  then show ?thesis unfolding py_in_iff by blast
qed

lemma boq_phrase_content:
  assumes "ci_substring ''bill of quantities'' content"
  shows "detect_doc_type content pdf_path = ''boq''"
proof -
  have "py_in ''bill of quantities'' (lower (str_bytes content))"
    by (rule content_phrase [OF assms]) (simp_all add: lower_def lower_char_def char_of_eq_iff)
  then show ?thesis by (simp add: detect_doc_type_def)
qed

lemma sublist_quoted:
  assumes "q \<notin> set k" "2 \<le> length k"
  shows "sublist k ([a, q] @ t @ [q]) \<longleftrightarrow> sublist k t"
proof
  assume "sublist k t"
  then obtain ps ss where "t = ps @ k @ ss" by (auto simp: sublist_def)
  then have "[a, q] @ t @ [q] = ([a, q] @ ps) @ k @ (ss @ [q])" by simp
  then show "sublist k ([a, q] @ t @ [q])" unfolding sublist_def by blast
next
  assume "sublist k ([a, q] @ t @ [q])"
  then obtain ps ss where e: "[a, q] @ t @ [q] = ps @ k @ ss" by (auto simp: sublist_def)
  from assms(2) obtain x y k' where k: "k = x # y # k'"
    by (cases k; cases "tl k") auto
  with assms(1) have xq: "x \<noteq> q" "y \<noteq> q" by auto
  have "\<exists>ps'. ps = a # q # ps'"
  proof (cases ps)
    case Nil
    with e k xq show ?thesis by simp
  next
    case (Cons p1 ps1)
    show ?thesis
    proof (cases ps1)
      case Nil
      with e k xq Cons show ?thesis by simp
    next
      case (Cons p2 ps2)
      with e \<open>ps = p1 # ps1\<close> show ?thesis by simp
    qed
  qed
  then obtain ps' where ps: "ps = a # q # ps'" by blast
  with e have e': "t @ [q] = ps' @ k @ ss" by simp
  show "sublist k t"
  proof (cases ss rule: rev_cases)
    case Nil
    with e' have "last (ps' @ k) = q" by (metis append_Nil2 last_snoc)
    with k have "last k = q" by simp
    with k have "q \<in> set k" by (metis last_in_set list.distinct(1))
    with assms(1) show ?thesis by simp
  next
    case (snoc ss' z)
    with e' have "t @ [q] = (ps' @ k @ ss') @ [z]" by simp
    then have "t = ps' @ k @ ss'" by (simp only: append1_eq_conv)
    then show ?thesis unfolding sublist_def by blast
  qed
qed

lemma str_bytes_plain:
  assumes "\<forall>c \<in> set content. plain c"
  shows "str_bytes content = [CHR ''b'', CHR 0x27] @ content @ [CHR 0x27]"
proof -
  have "CHR 0x27 \<notin> set content" using assms by (auto simp: plain_def)
  then have q: "bytes_quote content = CHR 0x27" by (simp add: bytes_quote_def)
  have "concat (map (repr_byte (CHR 0x27)) content) = content"
    by (rule concat_repr_plain) (simp_all add: assms)
  then show ?thesis by (simp add: str_bytes_def q Let_def)
qed

lemma decode_latin1_id: "decode_latin1 content = content"
  by (simp add: decode_latin1_def map_idI)

text \<open>
  On a content of plain bytes only (printable ASCII without the quotes and the
  backslash) the printed literal is the content between \<open>b'\<close> and \<open>'\<close>, and the
  detected type is that of the classifier of the specification.
\<close>

lemma detect_doc_type_plain:
  assumes "\<forall>c \<in> set content. plain c"
  shows "detect_doc_type content pdf_path
           = spec_document_type_classifier (decode_latin1 content) (basename pdf_path)"
proof -
  have l: "lower (str_bytes content) = [CHR ''b'', CHR 0x27] @ lower content @ [CHR 0x27]"
    by (simp add: str_bytes_plain [OF assms] lower_def lower_char_def char_of_eq_iff)
  have "py_in k (lower (str_bytes content)) = py_in k (lower content)"
    if "CHR 0x27 \<notin> set k" "2 \<le> length k" for k
    unfolding l py_in_sublist by (rule sublist_quoted [OF that])
  then have "py_in ''bill of quantities'' (lower (str_bytes content)) = py_in ''bill of quantities'' (lower content)"
    "py_in ''boq'' (lower (str_bytes content)) = py_in ''boq'' (lower content)"
    "py_in ''specification'' (lower (str_bytes content)) = py_in ''specification'' (lower content)"
    "py_in ''spec sheet'' (lower (str_bytes content)) = py_in ''spec sheet'' (lower content)"
    by simp_all
  then show ?thesis
    by (simp add: detect_doc_type_def spec_document_type_classifier_def Let_def decode_latin1_id)
qed

text \<open>
  C5. For every content and path \<open>detect_doc_type\<close> is the classifier of the
  specification applied to \<open>str(content)\<close>, the printed literal of the bytes, and to
  the base name of the path; its result is always one of the two values and it has no
  failing branch. It is not that classifier applied to the decoded content: in the
  printed literal a byte that is not printable stands as an escape, and the letters
  and digits of the escape take part in the search. The byte 0x0B prints as \<open>\x0b\<close>;
  followed by \<open>oq\<close> it completes the token \<open>boq\<close>. So the file \<open>spec.pdf\<close> that holds
  the three bytes 0B 6F 71 is detected as \<open>boq\<close>, while its decoded content holds none
  of the four phrases and the classifier of the specification answers \<open>spec\<close> from the
  file name.
\<close>

theorem detect_doc_type_printed_literal:
  "detect_doc_type content pdf_path
     = spec_document_type_classifier (str_bytes content) (basename pdf_path)
   \<and> detect_doc_type content pdf_path \<in> {''boq'', ''spec''}
   \<and> str_bytes ([CHR 0x0B] @ ''oq'') = ''b'' @ [CHR 0x27, CHR 0x5C] @ ''x0boq'' @ [CHR 0x27]
   \<and> decode_latin1 ([CHR 0x0B] @ ''oq'') = [CHR 0x0B] @ ''oq''
   \<and> detect_doc_type ([CHR 0x0B] @ ''oq'') ''spec.pdf'' = ''boq''
   \<and> spec_document_type_classifier (decode_latin1 ([CHR 0x0B] @ ''oq'')) (basename ''spec.pdf'') = ''spec''"
proof -
  have 1: "detect_doc_type content pdf_path
     = spec_document_type_classifier (str_bytes content) (basename pdf_path)"
    by (simp add: detect_doc_type_def spec_document_type_classifier_def Let_def)
  have 2: "detect_doc_type content pdf_path \<in> {''boq'', ''spec''}"
    by (simp add: detect_doc_type_def Let_def)
  have 3: "str_bytes ([CHR 0x0B] @ ''oq'') = ''b'' @ [CHR 0x27, CHR 0x5C] @ ''x0boq'' @ [CHR 0x27]"
    by code_simp
  have 4: "decode_latin1 ([CHR 0x0B] @ ''oq'') = [CHR 0x0B] @ ''oq''"
    by (simp add: decode_latin1_def)
  have 5: "detect_doc_type ([CHR 0x0B] @ ''oq'') ''spec.pdf'' = ''boq''"
    by code_simp
  have 6: "spec_document_type_classifier ([CHR 0x0B] @ ''oq'') (basename ''spec.pdf'') = ''spec''"
    by code_simp
  from 1 2 3 4 5 6 show ?thesis by (simp only: simp_thms)
qed

section \<open>Properties of the matcher\<close>

lemma star_groups:
  assumes "\<And>s g s' g'. (s', g') \<in> set (f s g) \<Longrightarrow> \<exists>h. g' = h @ g"
  shows "(s', g') \<in> set (star f n s g) \<Longrightarrow> \<exists>h. g' = h @ g"
proof (induction n arbitrary: s g)
  case 0
  then show ?case by simp
next
  case (Suc n)
  from Suc.prems consider "(s', g') = (s, g)"
    | s1 g1 where "(s1, g1) \<in> set (f s g)" "(s', g') \<in> set (star f n s1 g1)"
    by (auto split: if_splits)
  then show ?case
  proof cases
    case 1
    then show ?thesis by simp
  next
    case 2
    from assms [OF 2(1)] obtain h1 where "g1 = h1 @ g" by blast
    moreover from Suc.IH [OF 2(2)] obtain h2 where "g' = h2 @ g1" by blast
    ultimately show ?thesis by simp
  qed
qed

lemma lazy_star_groups:
  assumes "\<And>s g s' g'. (s', g') \<in> set (f s g) \<Longrightarrow> \<exists>h. g' = h @ g"
  shows "(s', g') \<in> set (lazy_star f n s g) \<Longrightarrow> \<exists>h. g' = h @ g"
proof (induction n arbitrary: s g)
  case 0
  then show ?case by simp
next
  case (Suc n)
  from Suc.prems consider "(s', g') = (s, g)"
    | s1 g1 where "(s1, g1) \<in> set (f s g)" "(s', g') \<in> set (lazy_star f n s1 g1)"
    by (auto split: if_splits)
  then show ?case
  proof cases
    case 1
    then show ?thesis by simp
  next
    case 2
    from assms [OF 2(1)] obtain h1 where "g1 = h1 @ g" by blast
    moreover from Suc.IH [OF 2(2)] obtain h2 where "g' = h2 @ g1" by blast
    ultimately show ?thesis by simp
  qed
qed

text \<open>A match only adds groups to those it started with.\<close>

lemma run_groups: "(s', g') \<in> set (run r s g) \<Longrightarrow> \<exists>h. g' = h @ g"
proof (induction r arbitrary: s g s' g')
  case (Sym P)
  then show ?case by (auto split: list.splits if_splits)
next
  case Eps
  then show ?case by simp
next
  case (Seq r1 r2)
  from Seq.prems obtain s1 g1 where 1: "(s1, g1) \<in> set (run r1 s g)" and 2: "(s', g') \<in> set (run r2 s1 g1)"
    by auto
  from Seq.IH(1) [OF 1] obtain h1 where "g1 = h1 @ g" by blast
  moreover from Seq.IH(2) [OF 2] obtain h2 where "g' = h2 @ g1" by blast
  ultimately show ?case by simp
next
  case (Alt r1 r2)
  then show ?case by auto
next
  case (Star r)
  then show ?case using star_groups [of "run r"] by auto
next
  case (LazyStar r)
  then show ?case using lazy_star_groups [of "run r"] by auto
next
  case (Group n r)
  from Group.prems obtain g1 where "(s', g1) \<in> set (run r s g)" "g' = (n, take (length s - length s') s) # g1"
    by auto
  with Group.IH show ?case by fastforce
next
  case Eol
  then show ?case by (auto split: if_splits)
qed

lemma run_Seq_iff:
  "(s', g') \<in> set (run (Seq r1 r2) s g) \<longleftrightarrow>
     (\<exists>s1 g1. (s1, g1) \<in> set (run r1 s g) \<and> (s', g') \<in> set (run r2 s1 g1))"
  by auto

lemma run_Group_iff:
  "(s', g') \<in> set (run (Group n r) s g) \<longleftrightarrow>
     (\<exists>g1. (s', g1) \<in> set (run r s g) \<and> g' = (n, take (length s - length s') s) # g1)"
  by auto

lemma map_of_append_key: "map_of g n \<noteq> None \<Longrightarrow> map_of (h @ g) n \<noteq> None"
  by (simp add: map_add_def split: option.splits)






section \<open>The line-item sheet\<close>

lemma digit_char_digit: "d < 10 \<Longrightarrow> is_digit (digit_char d)"
  by (simp add: is_digit_def digit_char_def)

lemma digit_char_val: "d < 10 \<Longrightarrow> of_char (digit_char d) - 48 = d"
  by (simp add: digit_char_def)

lemma str_nat_digits: "\<forall>c \<in> set (str_nat n). is_digit c"
proof (induction n rule: str_nat.induct)
  case (1 n)
  show ?case
  proof (cases "n < 10")
    case True
    then show ?thesis by (subst str_nat.simps) (simp add: digit_char_digit)
  next
    case False
    then show ?thesis using 1 by (subst str_nat.simps) (simp add: digit_char_digit)
  qed
qed

lemma str_nat_nonempty: "str_nat n \<noteq> []"
  by (subst str_nat.simps) simp

lemma nat_of_digits_snoc: "nat_of_digits (ds @ [c]) = 10 * nat_of_digits ds + (of_char c - 48)"
  by (simp add: nat_of_digits_def)

lemma nat_of_digits_str_nat: "nat_of_digits (str_nat n) = n"
proof (induction n rule: str_nat.induct)
  case (1 n)
  show ?case
  proof (cases "n < 10")
    case True
    then show ?thesis by (subst str_nat.simps) (simp add: nat_of_digits_def digit_char_val)
  next
    case False
    then have "nat_of_digits (str_nat n) = 10 * (n div 10) + n mod 10"
      using 1 by (subst str_nat.simps) (simp add: nat_of_digits_snoc digit_char_val)
    then show ?thesis by simp
  qed
qed

lemma takeWhile_str_nat:
  assumes "rest = [] \<or> \<not> is_digit (hd rest)"
  shows "takeWhile is_digit (str_nat n @ rest) = str_nat n"
    and "dropWhile is_digit (str_nat n @ rest) = rest"
proof -
  have d: "\<forall>c \<in> set (str_nat n). is_digit c" by (rule str_nat_digits)
  have "takeWhile is_digit rest = []" "dropWhile is_digit rest = rest"
    using assms by (cases rest; simp)+
  then show "takeWhile is_digit (str_nat n @ rest) = str_nat n"
    and "dropWhile is_digit (str_nat n @ rest) = rest"
    using d by (simp_all add: takeWhile_append2 dropWhile_append2)
qed

lemma read_ref_str_nat:
  assumes "65 \<le> (of_char c :: nat)" "(of_char c :: nat) \<le> 90" "rest = [] \<or> \<not> is_digit (hd rest)"
  shows "read_ref (c # str_nat n @ rest) = Some ((n, of_char c - 64), rest)"
  using assms(1,2)
  by (simp add: Let_def takeWhile_str_nat [OF assms(3)] str_nat_nonempty nat_of_digits_str_nat)

lemma read_product:
  "read_formula (''=C'' @ str_nat r @ ''*F'' @ str_nat r) = Some (Product (r, 3) (r, 6))"
proof -
  have 1: "read_ref (CHR ''C'' # str_nat r @ ''*F'' @ str_nat r) = Some ((r, 3), ''*F'' @ str_nat r)"
    using read_ref_str_nat [of "CHR ''C''" "''*F'' @ str_nat r" r] by (simp add: is_digit_def)
  have 2: "read_ref (CHR ''F'' # str_nat r) = Some ((r, 6), [])"
    using read_ref_str_nat [of "CHR ''F''" "[]" r] by simp
  show ?thesis using 1 2 by (simp add: read_formula_def)
qed

lemma read_sum:
  "read_formula (''=SUM(G'' @ str_nat a @ '':G'' @ str_nat b @ '')'') = Some (SumRange (a, 7) (b, 7))"
proof -
  have 1: "read_ref (CHR ''G'' # str_nat a @ '':G'' @ str_nat b @ '')'')
      = Some ((a, 7), '':G'' @ str_nat b @ '')'')"
    using read_ref_str_nat [of "CHR ''G''" "'':G'' @ str_nat b @ '')''" a] by (simp add: is_digit_def)
  have 2: "read_ref (CHR ''G'' # str_nat b @ '')'') = Some ((b, 7), '')'')"
    using read_ref_str_nat [of "CHR ''G''" "'')''" b] by (simp add: is_digit_def)
  show ?thesis using 1 2 by (simp add: read_formula_def)
qed

lemma is_formula_product: "is_formula (''=C'' @ s)"
  by (simp add: is_formula_def)

lemma is_formula_sum: "is_formula (''=SUM(G'' @ s)"
  by (simp add: is_formula_def)

lemma write_boq_row_other:
  "r \<noteq> d + idx \<Longrightarrow> write_boq_row d w (idx, row) (r, c) = w (r, c)"
  by (simp add: write_boq_row_def Let_def ws_cell_def split: pyval.splits)

lemma write_boq_row_price: "write_boq_row d w (idx, row) (d + idx, 6) = Number 0"
  by (simp add: write_boq_row_def Let_def ws_cell_def split: pyval.splits)

lemma write_boq_row_total:
  "write_boq_row d w (idx, row) (d + idx, 7) = Text (''=C'' @ str_nat (d + idx) @ ''*F'' @ str_nat (d + idx))"
  by (simp add: write_boq_row_def Let_def ws_cell_def split: pyval.splits)

lemma write_boq_row_quantity:
  "write_boq_row d w (idx, row) (d + idx, 3) =
     (case row_get row ''Quantity'' (PStr '''') of
        PNone \<Rightarrow> w (d + idx, 3) | PStr s \<Rightarrow> Text s | PNum q \<Rightarrow> Number q)"
  by (simp add: write_boq_row_def Let_def ws_cell_def split: pyval.splits)

lemma write_boq_row_same:
  assumes "w1 (d + idx, c) = w2 (d + idx, c)"
  shows "write_boq_row d w1 (idx, row) (d + idx, c) = write_boq_row d w2 (idx, row) (d + idx, c)"
  using assms by (simp add: write_boq_row_def Let_def ws_cell_def split: pyval.splits)

lemma fold_rows_other:
  "(\<forall>j < length rws. r \<noteq> d + k + j) \<Longrightarrow>
     fold (\<lambda>ir w. write_boq_row d w ir) (enumerate k rws) w (r, c) = w (r, c)"
proof (induction rws arbitrary: k w)
  case Nil
  then show ?case by simp
next
  case (Cons x xs)
  have "\<forall>j < length xs. r \<noteq> d + Suc k + j"
    using Cons.prems by (metis Suc_less_eq add_Suc_right add_Suc_shift length_Cons)
  then have "fold (\<lambda>ir w. write_boq_row d w ir) (enumerate (Suc k) xs) (write_boq_row d w (k, x)) (r, c)
      = write_boq_row d w (k, x) (r, c)"
    by (rule Cons.IH)
  moreover have "r \<noteq> d + k" using Cons.prems by force
  ultimately show ?case by (simp add: write_boq_row_other)
qed

text \<open>The cells of a data row after the loop, for a sheet whose data rows were blank.\<close>

lemma fold_rows_at:
  assumes "i < length rws"
  shows "fold (\<lambda>ir w. write_boq_row d w ir) (enumerate k rws) w (d + k + i, c)
       = write_boq_row d w (k + i, rws ! i) (d + k + i, c)"
  using assms
proof (induction rws arbitrary: k w i)
  case Nil
  then show ?case by simp
next
  case (Cons x xs)
  show ?case
  proof (cases i)
    case 0
    have "fold (\<lambda>ir w. write_boq_row d w ir) (enumerate (Suc k) xs) (write_boq_row d w (k, x)) (d + k, c)
        = write_boq_row d w (k, x) (d + k, c)"
      by (rule fold_rows_other) simp
    with 0 show ?thesis by simp
  next
    case (Suc j)
    with Cons.prems have j: "j < length xs" by simp
    let ?w = "write_boq_row d w (k, x)"
    have "fold (\<lambda>ir w. write_boq_row d w ir) (enumerate (Suc k) xs) ?w (d + Suc k + j, c)
        = write_boq_row d ?w (Suc k + j, xs ! j) (d + Suc k + j, c)"
      by (rule Cons.IH [OF j])
    moreover have "write_boq_row d ?w (Suc k + j, xs ! j) (d + Suc k + j, c)
        = write_boq_row d w (Suc k + j, xs ! j) (d + Suc k + j, c)"
    proof -
      have "?w (d + (Suc k + j), c) = w (d + (Suc k + j), c)"
        by (rule write_boq_row_other) simp
      then show ?thesis
        using write_boq_row_same [of ?w d "Suc k + j" c w "xs ! j"] by (simp add: add.assoc)
    qed
    ultimately show ?thesis using Suc by simp
  qed
qed

lemma write_headers_other: "r \<noteq> h \<Longrightarrow> write_headers w h hs (r, c) = w (r, c)"
proof -
  have "r \<noteq> h \<Longrightarrow> fold (\<lambda>(col, header) w. ws_cell w h col (PStr header)) (enumerate k hs) w (r, c) = w (r, c)"
    for k
    by (induction hs arbitrary: k w) (simp_all add: ws_cell_def)
  then show "r \<noteq> h \<Longrightarrow> write_headers w h hs (r, c) = w (r, c)"
    by (simp add: write_headers_def)
qed

lemma str_nat_5: "str_nat 5 = ''5''"
  by (subst str_nat.simps) (simp add: digit_char_def char_of_eq_iff)

lemma boq_sheet_before_rows:
  "r \<ge> 5 \<Longrightarrow>
   write_headers
     (ws_cell (ws_cell (\<lambda>_. Blank) 1 1 (PStr t)) 2 1 (PStr g)) 4 boq_headers (r, c) = Blank"
  by (simp add: write_headers_other ws_cell_def)

lemma create_boq_sheet_row:
  assumes "i < length df"
  shows "create_boq_sheet now df (5 + i, 6) = Number 0"
    and "create_boq_sheet now df (5 + i, 7) = Text (''=C'' @ str_nat (5 + i) @ ''*F'' @ str_nat (5 + i))"
    and "create_boq_sheet now df (5 + i, 3) =
          (case row_get (df ! i) ''Quantity'' (PStr '''') of
             PNone \<Rightarrow> Blank | PStr s \<Rightarrow> Text s | PNum q \<Rightarrow> Number q)"
proof -
  let ?w0 = "write_headers
     (ws_cell (ws_cell (\<lambda>_. Blank) 1 1 (PStr ''BILL OF QUANTITIES - SMOKE DETECTION SYSTEM'')) 2 1
        (PStr (''Generated: '' @ now))) 4 boq_headers"
  let ?w1 = "fold (\<lambda>ir w. write_boq_row 5 w ir) (enumerate 0 df) ?w0"
  have c: "create_boq_sheet now df (5 + i, k) = ?w1 (5 + i, k)" if "k \<in> {3, 6, 7}" for k
    using that assms by (auto simp add: create_boq_sheet_def Let_def ws_cell_def)
  have a: "?w1 (5 + i, k) = write_boq_row 5 ?w0 (i, df ! i) (5 + i, k)" for k
    using fold_rows_at [OF assms, of 5 0 ?w0 k] by simp
  show "create_boq_sheet now df (5 + i, 6) = Number 0"
    using c [of 6] a [of 6] by (simp add: write_boq_row_price)
  show "create_boq_sheet now df (5 + i, 7) = Text (''=C'' @ str_nat (5 + i) @ ''*F'' @ str_nat (5 + i))"
    using c [of 7] a [of 7] by (simp add: write_boq_row_total)
  have "?w0 (5 + i, 3) = Blank" by (rule boq_sheet_before_rows) simp
  then show "create_boq_sheet now df (5 + i, 3) =
          (case row_get (df ! i) ''Quantity'' (PStr '''') of
             PNone \<Rightarrow> Blank | PStr s \<Rightarrow> Text s | PNum q \<Rightarrow> Number q)"
    using c [of 3] a [of 3] by (simp add: write_boq_row_quantity split: pyval.splits)
qed

lemma create_boq_sheet_after:
  "create_boq_sheet now df (5 + length df, 7) = Blank"
proof -
  let ?w0 = "write_headers
     (ws_cell (ws_cell (\<lambda>_. Blank) 1 1 (PStr ''BILL OF QUANTITIES - SMOKE DETECTION SYSTEM'')) 2 1
        (PStr (''Generated: '' @ now))) 4 boq_headers"
  let ?w1 = "fold (\<lambda>ir w. write_boq_row 5 w ir) (enumerate 0 df) ?w0"
  have "create_boq_sheet now df (5 + length df, 7) = ?w1 (5 + length df, 7)"
    by (simp add: create_boq_sheet_def Let_def ws_cell_def)
  also have "\<dots> = ?w0 (5 + length df, 7)"
    by (rule fold_rows_other) simp
  also have "\<dots> = Blank" by (rule boq_sheet_before_rows) simp
  finally show ?thesis .
qed

lemma create_boq_sheet_grand_total:
  "create_boq_sheet now df (length df + 7, 7) = Text (''=SUM(G5:G'' @ str_nat (5 + length df) @ '')'')"
proof -
  have "4 + 1 + length df + 2 = length df + 7" by simp
  then show ?thesis
    by (simp add: create_boq_sheet_def Let_def ws_cell_def str_nat_5)
qed

lemma those_map_Some: "those (map Some xs) = Some xs"
  by (induction xs) simp_all

lemma range_refs_column: "range_refs (a, c) (b, c) = map (\<lambda>r. (r, c)) [a..<Suc b]"
  by (simp add: range_refs_def)

lemma quantity_cell_value:
  assumes "i < length df" "quantity_number coerce (df ! i) = Some x"
    and "ws' (5 + i, 3) = create_boq_sheet now df (5 + i, 3)"
  shows "cell_value coerce (Suc k) ws' Operand (5 + i, 3) = Some x"
proof (cases "row_get (df ! i) ''Quantity'' (PStr [])")
  case PNone
  then have "ws' (5 + i, 3) = Blank" "x = 0"
    using assms(2) by (simp_all add: assms(3) create_boq_sheet_row(3) [OF assms(1)] quantity_number_def)
  then show ?thesis by simp
next
  case (PStr s)
  then have "ws' (5 + i, 3) = Text s" "\<not> is_formula s" "coerce s = Some x"
    using assms(2)
    by (simp_all add: assms(3) create_boq_sheet_row(3) [OF assms(1)] quantity_number_def split: if_splits)
  then show ?thesis by simp
next
  case (PNum y)
  then have "ws' (5 + i, 3) = Number y" "x = y"
    using assms(2) by (simp_all add: assms(3) create_boq_sheet_row(3) [OF assms(1)] quantity_number_def)
  then show ?thesis by simp
qed

lemma row_total_value:
  assumes "i < length df" "quantity_number coerce (df ! i) = Some x" "ws' (5 + i, 6) = Number y"
    and "\<forall>r c. c \<noteq> 6 \<longrightarrow> ws' (r, c) = create_boq_sheet now df (r, c)"
  shows "cell_value coerce (Suc (Suc k)) ws' u (5 + i, 7) = Some (x * y)"
proof -
  define f where "f = ''=C'' @ str_nat (5 + i) @ ''*F'' @ str_nat (5 + i)"
  have f: "is_formula f" "read_formula f = Some (Product (5 + i, 3) (5 + i, 6))"
    unfolding f_def by (rule is_formula_product, rule read_product)
  have 3: "ws' (5 + i, 3) = create_boq_sheet now df (5 + i, 3)" using assms(4) by simp
  have 7: "ws' (5 + i, 7) = Text f"
    unfolding f_def using assms(4) create_boq_sheet_row(2) [OF assms(1)] by simp
  have a: "cell_value coerce (Suc k) ws' Operand (5 + i, 3) = Some x"
    using quantity_cell_value [of i df coerce x ws' now k] assms(1,2) 3 by simp
  have b: "cell_value coerce (Suc k) ws' Operand (5 + i, 6) = Some y"
    using assms(3) by simp
  show ?thesis
    by (subst cell_value.simps(2)) (simp del: cell_value.simps add: 7 f a b)
qed

lemma upt_shift: "[a..<a + n] = map (\<lambda>i. a + i) [0..<n]"
  by (induction n) simp_all

lemma grand_total_value:
  assumes q: "\<forall>i < length df. quantity_number coerce (df ! i) = Some (q i)"
    and p: "\<forall>i < length df. ws' (5 + i, 6) = Number (p i)"
    and same: "\<forall>r c. c \<noteq> 6 \<longrightarrow> ws' (r, c) = create_boq_sheet now df (r, c)"
  shows "cell_value coerce (Suc (Suc (Suc k))) ws' u (length df + 7, 7)
       = Some (\<Sum>i < length df. q i * p i)"
proof -
  let ?n = "length df"
  define f where "f = ''=SUM(G5:G'' @ str_nat (5 + ?n) @ '')''"
  have f: "is_formula f" "read_formula f = Some (SumRange (5, 7) (5 + ?n, 7))"
    unfolding f_def using is_formula_sum [of "str_nat 5 @ '':G'' @ str_nat (5 + ?n) @ '')''"]
      read_sum [of 5 "5 + ?n"] by (simp_all add: str_nat_5)
  have t: "ws' (?n + 7, 7) = Text f"
    unfolding f_def using same create_boq_sheet_grand_total [of now df] by simp
  have rws: "map (cell_value coerce (Suc (Suc k)) ws' Summand) (map (\<lambda>r. (r, 7)) (map (\<lambda>i. 5 + i) [0..<?n]))
      = map Some (map (\<lambda>i. q i * p i) [0..<?n])"
    using q p same by (auto simp del: cell_value.simps intro!: row_total_value)
  have "ws' (5 + ?n, 7) = Blank" using same create_boq_sheet_after [of now df] by simp
  then have last: "cell_value coerce (Suc (Suc k)) ws' Summand (5 + ?n, 7) = Some 0" by simp
  have "[5..<Suc (5 + ?n)] = map (\<lambda>i. 5 + i) [0..<?n] @ [5 + ?n]"
    using upt_shift [of 5 ?n] by (simp only: upt_Suc_append le_add1 if_True)
  then have "map (cell_value coerce (Suc (Suc k)) ws' Summand) (range_refs (5, 7) (5 + ?n, 7))
      = map Some (map (\<lambda>i. q i * p i) [0..<?n] @ [0])"
    using rws last by (simp del: cell_value.simps add: range_refs_column)
  then have "those (map (cell_value coerce (Suc (Suc k)) ws' Summand) (range_refs (5, 7) (5 + ?n, 7)))
      = Some (map (\<lambda>i. q i * p i) [0..<?n] @ [0])"
    by (simp only: those_map_Some)
  moreover have "sum_list (map (\<lambda>i. q i * p i) [0..<?n] @ [0]) = (\<Sum>i < ?n. q i * p i)"
    by (simp add: interv_sum_list_conv_sum_set_nat atLeast0LessThan)
  ultimately show ?thesis
    by (subst cell_value.simps(2))
      (simp del: cell_value.simps add: t f)
qed

text \<open>
  C9. In the sheet that \<open>create_boq_sheet\<close> writes, every data row has the unit
  price 0 in column F and the formula text \<open>=C<row>*F<row>\<close> in column G, and the cell
  two rws below the row after the data holds \<open>=SUM(G5:G<5+n>)\<close>. In any sheet that
  differs from it in column F only (the unit prices edited to numbers), the formula
  of a row evaluates to that row's quantity times its unit price and the grand total
  to the sum of these products over all rws; the extraction is not involved.
  The quantity of a row is the number its Quantity cell stands for in a product.
\<close>

theorem boq_sheet_totals:
  assumes "\<forall>i < length df. quantity_number coerce (df ! i) = Some (q i)"
    and "\<forall>i < length df. ws' (5 + i, 6) = Number (p i)"
    and "\<forall>r c. c \<noteq> 6 \<longrightarrow> ws' (r, c) = create_boq_sheet now df (r, c)"
  shows "(\<forall>i < length df.
            create_boq_sheet now df (5 + i, 6) = Number 0
          \<and> create_boq_sheet now df (5 + i, 7)
              = Text (''=C'' @ str_nat (5 + i) @ ''*F'' @ str_nat (5 + i))
          \<and> cell_value coerce 2 ws' Operand (5 + i, 7) = Some (q i * p i))
       \<and> create_boq_sheet now df (length df + 7, 7)
           = Text (''=SUM(G5:G'' @ str_nat (5 + length df) @ '')'')
       \<and> cell_value coerce 3 ws' Operand (length df + 7, 7) = Some (\<Sum>i < length df. q i * p i)"
proof -
  have "cell_value coerce 2 ws' Operand (5 + i, 7) = Some (q i * p i)" if "i < length df" for i
    using row_total_value [of i df coerce "q i" ws' "p i" now 0 Operand] that assms
    by (simp del: cell_value.simps add: numeral_2_eq_2)
  moreover have "cell_value coerce 3 ws' Operand (length df + 7, 7) = Some (\<Sum>i < length df. q i * p i)"
    using grand_total_value [OF assms, of 0 Operand]
    by (simp del: cell_value.simps add: numeral_3_eq_3)
  ultimately show ?thesis
    using create_boq_sheet_row(1,2) [of _ df now] create_boq_sheet_grand_total [of now df]
    by (simp del: cell_value.simps)
qed

theorem boq_sheet_totals_witness:
  "cell_value (\<lambda>_. None) 2
     ((create_boq_sheet ''2026-01-01 10:00'' df2)((5, 6) := Number (5 / 2), (6, 6) := Number 1))
     Operand (5, 7) = Some 10
   \<and> cell_value (\<lambda>_. None) 2
     ((create_boq_sheet ''2026-01-01 10:00'' df2)((5, 6) := Number (5 / 2), (6, 6) := Number 1))
     Operand (6, 7) = Some 10
   \<and> cell_value (\<lambda>_. None) 3
     ((create_boq_sheet ''2026-01-01 10:00'' df2)((5, 6) := Number (5 / 2), (6, 6) := Number 1))
     Operand (9, 7) = Some 20"
proof -
  define ws where
    "ws = (create_boq_sheet ''2026-01-01 10:00'' df2)((5, 6) := Number (5 / 2), (6, 6) := Number 1)"
  let ?q = "\<lambda>i. [4, 10 :: rat] ! i"
  let ?p = "\<lambda>i. [5 / 2, 1 :: rat] ! i"
  have n: "length df2 = 2" by (simp add: df2_def)
  have 1: "\<forall>i < length df2. quantity_number (\<lambda>_. None) (df2 ! i) = Some (?q i)"
    by (auto simp add: df2_def less_Suc_eq quantity_number_def row_get_def)
  have 2: "\<forall>i < length df2. ws (5 + i, 6) = Number (?p i)"
    by (auto simp add: ws_def df2_def less_Suc_eq)
  have 3: "\<forall>r c. c \<noteq> 6 \<longrightarrow> ws (r, c) = create_boq_sheet ''2026-01-01 10:00'' df2 (r, c)"
    by (simp add: ws_def)
  have s: "(\<Sum>i < 2. ?q i * ?p i) = 20"
    by (simp add: numeral_2_eq_2)
  note t = boq_sheet_totals [OF 1 2 3]
  have rws: "\<forall>i < length df2. cell_value (\<lambda>_. None) 2 ws Operand (5 + i, 7) = Some (?q i * ?p i)"
    using t by blast
  have "0 < length df2" "1 < length df2" by (simp_all add: n)
  note r = rws [rule_format, OF this(1)] rws [rule_format, OF this(2)]
  have "cell_value (\<lambda>_. None) 2 ws Operand (5 + 0, 7) = Some (?q 0 * ?p 0)"
    by (rule r(1))
  then have a: "cell_value (\<lambda>_. None) 2 ws Operand (5, 7) = Some 10"
    by (simp del: cell_value.simps)
  have "cell_value (\<lambda>_. None) 2 ws Operand (5 + 1, 7) = Some (?q 1 * ?p 1)"
    by (rule r(2))
  then have b: "cell_value (\<lambda>_. None) 2 ws Operand (6, 7) = Some 10"
    by (simp del: cell_value.simps)
  have "cell_value (\<lambda>_. None) 3 ws Operand (length df2 + 7, 7) = Some (\<Sum>i < length df2. ?q i * ?p i)"
    using t by blast
  then have c: "cell_value (\<lambda>_. None) 3 ws Operand (9, 7) = Some 20"
    unfolding n s by (simp del: cell_value.simps)
  from a b c show ?thesis unfolding ws_def by blast
qed

section \<open>The line items\<close>

text \<open>Every match of the line pattern has its groups 1 and 2.\<close>

lemma line_pattern_groups:
  assumes "match_at line_pattern s = Some m"
  shows "group m 1 \<noteq> None \<and> group m 2 \<noteq> None"
proof -
  define A where "A = seqs [Plus digit, Opt (chr CHR ''.''), Star digit]"
  define D where "D = seqs [Opt (seqs [Plus space, Group 3 (seqs [Plus digit, Opt (seqs [chr CHR ''.'', Plus digit])])]),
           Star space, Eol]"
  have lp: "line_pattern = Seq (Group 1 A) (Seq (Plus space) (Seq (Group 2 (LazyPlus anychar)) D))"
    by (simp add: line_pattern_def A_def D_def)
  from assms obtain s' rest where "run line_pattern s [] = (s', snd m) # rest"
    by (auto simp: match_at_def split: list.splits)
  then have m: "(s', snd m) \<in> set (run line_pattern s [])" by simp
  then obtain s1 g1 where 1: "(s1, g1) \<in> set (run (Group 1 A) s [])"
    and r1: "(s', snd m) \<in> set (run (Seq (Plus space) (Seq (Group 2 (LazyPlus anychar)) D)) s1 g1)"
    unfolding lp run_Seq_iff by blast
  from r1 obtain s2 g2 where 2: "(s2, g2) \<in> set (run (Plus space) s1 g1)"
    and r2: "(s', snd m) \<in> set (run (Seq (Group 2 (LazyPlus anychar)) D) s2 g2)"
    unfolding run_Seq_iff by blast
  from r2 obtain s3 g3 where 3: "(s3, g3) \<in> set (run (Group 2 (LazyPlus anychar)) s2 g2)"
    and 4: "(s', snd m) \<in> set (run D s3 g3)"
    unfolding run_Seq_iff by blast
  from 1 have "map_of g1 1 \<noteq> None" unfolding run_Group_iff by auto
  moreover from run_groups [OF 2] obtain h2 where "g2 = h2 @ g1" by blast
  ultimately have g2: "map_of g2 1 \<noteq> None" by (simp add: map_of_append_key)
  from 3 obtain g3' where g3: "g3 = (2, take (length s2 - length s3) s2) # g3'"
    and "(s3, g3') \<in> set (run (LazyPlus anychar) s2 g2)" unfolding run_Group_iff by blast
  then obtain h3 where "g3' = h3 @ g2" using run_groups by blast
  with g2 g3 have "map_of g3 1 \<noteq> None" "map_of g3 2 \<noteq> None"
    by (simp_all add: map_of_append_key)
  moreover from run_groups [OF 4] obtain h4 where "snd m = h4 @ g3" by blast
  ultimately show ?thesis by (simp add: group_def map_of_append_key)
qed

subsection \<open>Text mode\<close>

lemma line_item_fields:
  assumes "match_at line_pattern s = Some m"
  shows "\<exists>d q. line_item m = Inr [(PStr ''Item No'', pyval_of (group m 1)),
                  (PStr ''Description'', PStr d),
                  (PStr ''Quantity'', q),
                  (PStr ''Unit'', PStr (extract_unit d)),
                  (PStr ''Category'', PStr (categorize_smoke_detector_item d))]"
proof -
  from line_pattern_groups [OF assms] obtain d where "group m 2 = Some d" by auto
  then show ?thesis by (simp add: line_item_def Let_def)
qed

lemma scan_lines_fields:
  "\<exists>items. scan_lines ls = Inr items \<and>
     (\<forall>item \<in> set items. \<exists>n d q. item = [(PStr ''Item No'', n),
                  (PStr ''Description'', PStr d),
                  (PStr ''Quantity'', q),
                  (PStr ''Unit'', PStr (extract_unit d)),
                  (PStr ''Category'', PStr (categorize_smoke_detector_item d))])"
proof (induction ls)
  case Nil
  then show ?case by simp
next
  case (Cons l ls)
  then obtain items where items: "scan_lines ls = Inr items"
    "\<forall>item \<in> set items. \<exists>n d q. item = [(PStr ''Item No'', n),
                  (PStr ''Description'', PStr d),
                  (PStr ''Quantity'', q),
                  (PStr ''Unit'', PStr (extract_unit d)),
                  (PStr ''Category'', PStr (categorize_smoke_detector_item d))]"
    by blast
  show ?case
  proof (cases "match_at line_pattern (strip l)")
    case None
    with items show ?thesis by simp
  next
    case (Some m)
    from line_item_fields [OF Some] obtain d q where
      "line_item m = Inr [(PStr ''Item No'', pyval_of (group m 1)),
                  (PStr ''Description'', PStr d),
                  (PStr ''Quantity'', q),
                  (PStr ''Unit'', PStr (extract_unit d)),
                  (PStr ''Category'', PStr (categorize_smoke_detector_item d))]"
      by blast
    with Some items show ?thesis by auto
  qed
qed

lemma iterrows_frame_of_items:
  assumes "\<forall>item \<in> set items. map fst item = ks"
  shows "iterrows (frame_of_items items) = items"
proof (cases items)
  case Nil
  then show ?thesis by (simp add: iterrows_def frame_of_items_def)
next
  case (Cons i rest)
  have "map (zip ks) (map (map snd) items) = items"
    using assms by (induction items) (auto simp: zip_map_fst_snd)
  moreover have "map fst i = ks" using assms Cons by simp
  ultimately show ?thesis using Cons by (simp add: iterrows_def frame_of_items_def)
qed

text \<open>
  Text mode never raises, and every item of it has a string for its unit and its
  category: the two classifiers applied to its description.
\<close>

lemma text_mode_populated:
  assumes "extract_tables raw_tables = Inr []"
  shows "\<exists>df. parse_boq text raw_tables = Inr df \<and>
     (\<forall>row \<in> set (iterrows df). \<exists>d.
        row_get row ''Description'' PNone = PStr d
      \<and> row_get row ''Unit'' PNone = PStr (extract_unit d)
      \<and> row_get row ''Category'' PNone = PStr (categorize_smoke_detector_item d))"
proof -
  from scan_lines_fields [of "split_on (CHR 0x0A) text"] obtain items where
    items: "parse_boq_structure text = Inr items"
    "\<forall>item \<in> set items. \<exists>n d q. item = [(PStr ''Item No'', n),
                  (PStr ''Description'', PStr d),
                  (PStr ''Quantity'', q),
                  (PStr ''Unit'', PStr (extract_unit d)),
                  (PStr ''Category'', PStr (categorize_smoke_detector_item d))]"
    unfolding parse_boq_structure_def by blast
  have "\<forall>item \<in> set items. map fst item =
      [PStr ''Item No'', PStr ''Description'', PStr ''Quantity'', PStr ''Unit'', PStr ''Category'']"
    using items(2) by fastforce
  then have "iterrows (frame_of_items items) = items" by (rule iterrows_frame_of_items)
  moreover have "parse_boq text raw_tables = Inr (frame_of_items items)"
    using assms items(1) by (simp add: parse_boq_def)
  moreover have "\<forall>row \<in> set items. \<exists>d.
        row_get row ''Description'' PNone = PStr d
      \<and> row_get row ''Unit'' PNone = PStr (extract_unit d)
      \<and> row_get row ''Category'' PNone = PStr (categorize_smoke_detector_item d)"
    using items(2) by (fastforce simp: row_get_def)
  ultimately show ?thesis by simp
qed

subsection \<open>Table mode\<close>

lemma frame_of_table_fit: "frame_of_table t = Inr df \<Longrightarrow> rows_fit df"
proof (cases t)
  case Nil
  assume "frame_of_table t = Inr df"
  with Nil show ?thesis by (auto simp: frame_of_table_def rows_fit_def)
next
  case (Cons header body)
  assume a: "frame_of_table t = Inr df"
  show ?thesis
  proof (cases "body = []")
    case True
    with a Cons show ?thesis by (auto simp: frame_of_table_def rows_fit_def)
  next
    case False
    with a Cons have m: "Max (set (map length body)) = length header"
      and df: "df = \<lparr>columns = header, rows = map (pad (length header)) body\<rparr>"
      by (auto simp: frame_of_table_def split: if_splits)
    have "length r \<le> length header" if "r \<in> set body" for r
      using that m Max_ge [of "set (map length body)" "length r"] by auto
    then show ?thesis by (auto simp: df rows_fit_def pad_def)
  qed
qed

lemma extract_tables_fit: "extract_tables ts = Inr dfs \<Longrightarrow> \<forall>df \<in> set dfs. rows_fit df"
proof (induction ts arbitrary: dfs)
  case Nil
  then show ?case by simp
next
  case (Cons t ts)
  then show ?case
    by (auto split: if_splits sum.splits dest: frame_of_table_fit)
qed

lemma concat_frames_fit:
  assumes "concat_frames dfs = Inr df" "\<forall>d \<in> set dfs. rows_fit d"
  shows "rows_fit df"
proof (cases dfs)
  case Nil
  with assms show ?thesis by (simp add: concat_frames_def)
next
  case (Cons d ds)
  show ?thesis
  proof (cases "list_all (\<lambda>x. columns x = columns d) dfs")
    case True
    with assms(1) Cons have "df = \<lparr>columns = columns d, rows = concat (map rows dfs)\<rparr>"
      by (simp add: concat_frames_def)
    with True assms(2) show ?thesis by (auto simp: rows_fit_def list_all_iff)
  next
    case False
    with assms(1) Cons have "\<exists>labels. df = \<lparr>columns = labels, rows = concat (map (reindex labels) dfs)\<rparr>"
      by (auto simp: concat_frames_def Let_def split: if_splits)
    then show ?thesis by (auto simp: rows_fit_def reindex_def)
  qed
qed

lemma map_of_replace:
  assumes "length ls = length r" "label \<in> set ls"
  shows "map_of (zip ls (map (\<lambda>(l, x). if l = label then v else x) (zip ls r))) label = Some v"
  using assms
proof (induction ls arbitrary: r)
  case Nil
  then show ?case by simp
next
  case (Cons l ls)
  then obtain x xs where "r = x # xs" by (cases r) auto
  with Cons show ?case by auto
qed

lemma map_of_snoc:
  assumes "length ls = length r" "label \<notin> set ls"
  shows "map_of (zip (ls @ [label]) (r @ [v])) label = Some v"
  using assms by (simp add: map_add_def map_of_zip_is_None [THEN iffD2] split: option.splits)

lemma apply_categorize_nth:
  "apply_categorize vs = Inr cs \<Longrightarrow>
     length cs = length vs
     \<and> (\<forall>i < length vs. \<exists>d. vs ! i = PStr d \<and> cs ! i = PStr (categorize_smoke_detector_item d))"
proof (induction vs arbitrary: cs)
  case Nil
  then show ?case by simp
next
  case (Cons v vs)
  from Cons.prems obtain d cs' where v: "v = PStr d" and r: "apply_categorize vs = Inr cs'"
    and cs: "cs = PStr (categorize_smoke_detector_item d) # cs'"
    by (auto split: pyval.splits sum.splits)
  from Cons.IH [OF r] have l: "length cs' = length vs"
    and n: "\<forall>i < length vs. \<exists>d. vs ! i = PStr d \<and> cs' ! i = PStr (categorize_smoke_detector_item d)"
    by simp_all
  show ?case
  proof (intro conjI allI impI)
    show "length cs = length (v # vs)" by (simp add: cs l)
  next
    fix i assume "i < length (v # vs)"
    then show "\<exists>d. (v # vs) ! i = PStr d \<and> cs ! i = PStr (categorize_smoke_detector_item d)"
      using n by (cases i) (simp_all add: v cs)
  qed
qed

lemma map_of_replace_other:
  assumes "l \<noteq> label"
  shows "map_of (zip ls (map (\<lambda>(k, x). if k = label then v else x) (zip ls r))) l = map_of (zip ls r) l"
proof (induction ls arbitrary: r)
  case Nil
  then show ?case by simp
next
  case (Cons k ls)
  show ?case
  proof (cases r)
    case Nil
    then show ?thesis by simp
  next
    case (Cons x xs)
    with Cons.IH [of xs] assms show ?thesis by simp
  qed
qed

lemma map_of_snoc_other:
  assumes "length ls = length r" "l \<noteq> label"
  shows "map_of (zip (ls @ [label]) (r @ [v])) l = map_of (zip ls r) l"
  using assms by (auto simp: map_add_def map_of_zip_is_None [THEN iffD2] split: option.splits)

text \<open>
  The rows of the frame after \<open>df[label] = vs\<close>, one by one: the new value stands under
  the label, every other label keeps its value.
\<close>

lemma set_column_nth:
  assumes "rows_fit df" "length vs = length (rows df)" "i < length (rows df)"
  shows "length (iterrows (set_column df label vs)) = length (rows df)"
    and "map_of (iterrows (set_column df label vs) ! i) label = Some (vs ! i)"
    and "l \<noteq> label \<Longrightarrow>
         map_of (iterrows (set_column df label vs) ! i) l = map_of (zip (columns df) (rows df ! i)) l"
proof -
  from assms(1,3) have len: "length (columns df) = length (rows df ! i)"
    by (simp add: rows_fit_def)
  show "length (iterrows (set_column df label vs)) = length (rows df)"
    using assms(2) by (simp add: set_column_def iterrows_def)
  show "map_of (iterrows (set_column df label vs) ! i) label = Some (vs ! i)"
  proof (cases "label \<in> set (columns df)")
    case True
    with assms(2,3) map_of_replace [OF len True, of "vs ! i"] show ?thesis
      by (simp add: set_column_def iterrows_def)
  next
    case False
    with assms(2,3) map_of_snoc [OF len False, of "vs ! i"] show ?thesis
      by (simp add: set_column_def iterrows_def)
  qed
  show "map_of (iterrows (set_column df label vs) ! i) l = map_of (zip (columns df) (rows df ! i)) l"
    if "l \<noteq> label"
  proof (cases "label \<in> set (columns df)")
    case True
    with assms(2,3) map_of_replace_other [OF that, of "columns df" "vs ! i" "rows df ! i"] show ?thesis
      by (simp add: set_column_def iterrows_def)
  next
    case False
    with assms(2,3) map_of_snoc_other [OF len that, of "vs ! i"] show ?thesis
      by (simp add: set_column_def iterrows_def)
  qed
qed

text \<open>
  Table mode, when it succeeds: the frame has the rows of the concatenated tables, in
  their order; under Category every row has the classifier's result for the string in
  its second column, and under every other label what the tables have there.
\<close>

lemma table_mode_rows:
  assumes "extract_tables raw_tables = Inr tables" "tables \<noteq> []"
    and "concat_frames tables = Inr df0" "parse_boq text raw_tables = Inr df"
  shows "length (iterrows df) = length (rows df0)
    \<and> (\<forall>i < length (rows df0).
          (\<exists>d. rows df0 ! i ! 1 = PStr d
              \<and> row_get (iterrows df ! i) ''Category'' PNone = PStr (categorize_smoke_detector_item d))
          \<and> (\<forall>l. l \<noteq> PStr ''Category'' \<longrightarrow>
                map_of (iterrows df ! i) l = map_of (zip (columns df0) (rows df0 ! i)) l))"
proof -
  from assms have k: "categorize_frame df0 = Inr df"
    by (simp add: parse_boq_def)
  have fit: "rows_fit df0"
    using concat_frames_fit [OF assms(3) extract_tables_fit [OF assms(1)]] .
  from k obtain cs where cs: "apply_categorize (map (\<lambda>r. r ! 1) (rows df0)) = Inr cs"
    and df: "df = set_column df0 (PStr ''Category'') cs"
    by (auto simp: categorize_frame_def split: if_splits sum.splits)
  from apply_categorize_nth [OF cs] have l: "length cs = length (rows df0)"
    and n: "\<forall>i < length (rows df0). \<exists>d. rows df0 ! i ! 1 = PStr d
              \<and> cs ! i = PStr (categorize_smoke_detector_item d)"
    by simp_all
  show ?thesis
  proof (intro conjI allI impI)
    show "length (iterrows df) = length (rows df0)"
    proof (cases "rows df0")
      case Nil
      with l show ?thesis by (simp add: df set_column_def iterrows_def)
    next
      case (Cons r rs)
      then have "0 < length (rows df0)" by simp
      from set_column_nth(1) [OF fit l this] show ?thesis by (simp add: df)
    qed
  next
    fix i assume i: "i < length (rows df0)"
    with n obtain d where d: "rows df0 ! i ! 1 = PStr d" "cs ! i = PStr (categorize_smoke_detector_item d)"
      by blast
    from set_column_nth(2) [OF fit l i, of "PStr ''Category''"] d
    show "\<exists>d. rows df0 ! i ! 1 = PStr d
              \<and> row_get (iterrows df ! i) ''Category'' PNone = PStr (categorize_smoke_detector_item d)"
      by (simp add: df row_get_def)
  next
    fix i l assume "i < length (rows df0)" "l \<noteq> PStr ''Category''"
    from set_column_nth(3) [OF fit l this(1) this(2)]
    show "map_of (iterrows df ! i) l = map_of (zip (columns df0) (rows df0 ! i)) l"
      by (simp add: df)
  qed
qed

lemma extract_unit_default:
  "(\<forall>u \<in> set units. \<not> py_in u (lower d)) \<Longrightarrow> extract_unit d = ''NOS''"
proof -
  have "(\<forall>u \<in> set us. \<not> py_in u dl) \<Longrightarrow> scan_units us dl = ''NOS''" for us dl
    by (induction us) simp_all
  then show "(\<forall>u \<in> set units. \<not> py_in u (lower d)) \<Longrightarrow> extract_unit d = ''NOS''"
    by (simp add: extract_unit_def)
qed

lemma categorize_default:
  "(\<forall>(c, kws) \<in> set categories. \<forall>k \<in> set kws. \<not> py_in k (lower d))
     \<Longrightarrow> categorize_smoke_detector_item d = ''Other''"
proof -
  have "(\<forall>(c, kws) \<in> set cats. \<forall>k \<in> set kws. \<not> py_in k dl) \<Longrightarrow> scan_categories cats dl = ''Other''"
    for cats dl
    by (induction cats dl rule: scan_categories.induct) (auto simp: list_ex_iff)
  then show "(\<forall>(c, kws) \<in> set categories. \<forall>k \<in> set kws. \<not> py_in k (lower d))
     \<Longrightarrow> categorize_smoke_detector_item d = ''Other''"
    by (simp add: categorize_smoke_detector_item_def)
qed

text \<open>
  C6, as the code has it. In text mode (no table in the document) the parse never
  fails and every line item has a string for its unit and for its category: the unit
  inferer and the category classifier applied to its description, which give \<open>NOS\<close>
  and \<open>Other\<close> when no token and no keyword occurs. In table mode a parse that succeeds
  has the rows of the concatenated tables; every row has under Category the category
  classifier applied to the string in its second column (so \<open>Other\<close> when no keyword
  occurs in it), and under every other label, Unit among them, what the tables carry
  there: table mode does not infer the unit.
\<close>

theorem line_items_populated:
  "(extract_tables raw_tables = Inr [] \<longrightarrow>
      (\<exists>df. parse_boq text raw_tables = Inr df \<and>
         (\<forall>row \<in> set (iterrows df). \<exists>d.
            row_get row ''Description'' PNone = PStr d
          \<and> row_get row ''Unit'' PNone = PStr (extract_unit d)
          \<and> row_get row ''Category'' PNone = PStr (categorize_smoke_detector_item d))))
   \<and> (\<forall>d. (\<forall>u \<in> set units. \<not> py_in u (lower d)) \<longrightarrow> extract_unit d = ''NOS'')
   \<and> (\<forall>d. (\<forall>(c, kws) \<in> set categories. \<forall>k \<in> set kws. \<not> py_in k (lower d))
          \<longrightarrow> categorize_smoke_detector_item d = ''Other'')
   \<and> (\<forall>tables df0 df. extract_tables raw_tables = Inr tables \<and> tables \<noteq> []
          \<and> concat_frames tables = Inr df0 \<and> parse_boq text raw_tables = Inr df
        \<longrightarrow> length (iterrows df) = length (rows df0)
          \<and> (\<forall>i < length (rows df0).
                (\<exists>d. rows df0 ! i ! 1 = PStr d
                    \<and> row_get (iterrows df ! i) ''Category'' PNone
                        = PStr (categorize_smoke_detector_item d))
                \<and> (\<forall>l. l \<noteq> PStr ''Category'' \<longrightarrow>
                      map_of (iterrows df ! i) l = map_of (zip (columns df0) (rows df0 ! i)) l)))"
proof -
  have 4: "length (iterrows df) = length (rows df0)
          \<and> (\<forall>i < length (rows df0).
                (\<exists>d. rows df0 ! i ! 1 = PStr d
                    \<and> row_get (iterrows df ! i) ''Category'' PNone
                        = PStr (categorize_smoke_detector_item d))
                \<and> (\<forall>l. l \<noteq> PStr ''Category'' \<longrightarrow>
                      map_of (iterrows df ! i) l = map_of (zip (columns df0) (rows df0 ! i)) l))"
    if "extract_tables raw_tables = Inr tables \<and> tables \<noteq> []
          \<and> concat_frames tables = Inr df0 \<and> parse_boq text raw_tables = Inr df"
    for tables df0 df
    using that table_mode_rows [of raw_tables tables df0 "text" df] by blast
  from text_mode_populated [of raw_tables "text"] extract_unit_default categorize_default 4
  show ?thesis by (intro conjI allI impI) blast+
qed

theorem line_items_populated_witness:
  "extract_tables [] = Inr []
   \<and> (\<exists>d. row_get (iterrows (projr (parse_boq boq_text [])) ! 0) ''Description'' PNone = PStr d
          \<and> row_get (iterrows (projr (parse_boq boq_text [])) ! 0) ''Unit'' PNone = PStr (extract_unit d))
   \<and> map (\<lambda>row. (row_get row ''Description'' PNone, row_get row ''Unit'' PNone, row_get row ''Category'' PNone))
        (iterrows (projr (parse_boq boq_text [])))
      = [(PStr ''Fire Bells'', PStr ''NOS'', PStr ''Notification Devices''),
         (PStr ''Conduit'', PStr ''NOS'', PStr ''Installation Materials'')]
   \<and> table_null_unit ! 1 ! 1 = PStr ''Smoke Detector''
   \<and> row_get (iterrows (projr (parse_boq [] [table_null_unit])) ! 0) ''Category'' PNone
        = PStr (categorize_smoke_detector_item ''Smoke Detector'')
   \<and> map_of (iterrows (projr (parse_boq [] [table_null_unit])) ! 0) (PStr ''Unit'') = Some PNone"
proof -
  have e: "extract_tables [] = Inr []" by simp
  have p: "parse_boq boq_text [] = Inr \<lparr>columns =
        [PStr ''Item No'', PStr ''Description'', PStr ''Quantity'', PStr ''Unit'', PStr ''Category''],
      rows = [[PStr ''1'', PStr ''Fire Bells'', PStr ''12'', PStr ''NOS'', PStr ''Notification Devices''],
              [PStr ''2.1'', PStr ''Conduit'', PNone, PStr ''NOS'', PStr ''Installation Materials'']]\<rparr>"
    by code_simp
  let ?d0 = "\<lparr>columns = [PStr ''Item No'', PStr ''Description'', PStr ''Quantity'', PStr ''Unit''],
            rows = [[PStr ''1'', PStr ''Smoke Detector'', PStr ''5'', PNone]]\<rparr>"
  have t: "extract_tables [table_null_unit] = Inr [?d0]"
    by code_simp
  have c: "concat_frames [?d0] = Inr ?d0"
    by (simp add: concat_frames_def)
  have q: "parse_boq [] [table_null_unit] = Inr \<lparr>columns =
        [PStr ''Item No'', PStr ''Description'', PStr ''Quantity'', PStr ''Unit'', PStr ''Category''],
      rows = [[PStr ''1'', PStr ''Smoke Detector'', PStr ''5'', PNone, PStr ''Smoke Detectors'']]\<rparr>"
    by code_simp
  let ?df = "\<lparr>columns =
        [PStr ''Item No'', PStr ''Description'', PStr ''Quantity'', PStr ''Unit'', PStr ''Category''],
      rows = [[PStr ''1'', PStr ''Fire Bells'', PStr ''12'', PStr ''NOS'', PStr ''Notification Devices''],
              [PStr ''2.1'', PStr ''Conduit'', PNone, PStr ''NOS'', PStr ''Installation Materials'']]\<rparr>"
  let ?dq = "\<lparr>columns =
        [PStr ''Item No'', PStr ''Description'', PStr ''Quantity'', PStr ''Unit'', PStr ''Category''],
      rows = [[PStr ''1'', PStr ''Smoke Detector'', PStr ''5'', PNone, PStr ''Smoke Detectors'']]\<rparr>"
  have pr: "projr (parse_boq boq_text []) = ?df" "projr (parse_boq [] [table_null_unit]) = ?dq"
    unfolding p q by simp_all
  note thm1 = line_items_populated [of "[]" boq_text, THEN conjunct1, rule_format, OF e]
  from thm1 have rows: "\<forall>row \<in> set (iterrows ?df). \<exists>d.
            row_get row ''Description'' PNone = PStr d
          \<and> row_get row ''Unit'' PNone = PStr (extract_unit d)
          \<and> row_get row ''Category'' PNone = PStr (categorize_smoke_detector_item d)"
    unfolding p by simp
  have "iterrows ?df ! 0 \<in> set (iterrows ?df)" by (simp add: iterrows_def)
  with rows have 1: "\<exists>d. row_get (iterrows ?df ! 0) ''Description'' PNone = PStr d
          \<and> row_get (iterrows ?df ! 0) ''Unit'' PNone = PStr (extract_unit d)"
    by blast
  have 2: "map (\<lambda>row. (row_get row ''Description'' PNone, row_get row ''Unit'' PNone, row_get row ''Category'' PNone))
        (iterrows ?df)
      = [(PStr ''Fire Bells'', PStr ''NOS'', PStr ''Notification Devices''),
         (PStr ''Conduit'', PStr ''NOS'', PStr ''Installation Materials'')]"
    by (simp add: iterrows_def row_get_def)
  have h: "extract_tables [table_null_unit] = Inr [?d0] \<and> [?d0] \<noteq> []
      \<and> concat_frames [?d0] = Inr ?d0 \<and> parse_boq [] [table_null_unit] = Inr ?dq"
    using t q c by blast
  have z: "0 < length (rows ?d0)" by simp
  note thm2 = line_items_populated [of "[table_null_unit]" "[]", THEN conjunct2, THEN conjunct2,
      THEN conjunct2, THEN spec, THEN spec, THEN spec, THEN mp, OF h, THEN conjunct2,
      THEN spec, THEN mp, OF z]
  from thm2 [THEN conjunct1] obtain d where d: "rows ?d0 ! 0 ! 1 = PStr d"
    "row_get (iterrows ?dq ! 0) ''Category'' PNone = PStr (categorize_smoke_detector_item d)"
    by blast
  from d(1) have "d = ''Smoke Detector''" by simp
  with d(2) have 3: "row_get (iterrows ?dq ! 0) ''Category'' PNone
        = PStr (categorize_smoke_detector_item ''Smoke Detector'')"
    by simp
  have u: "PStr ''Unit'' \<noteq> PStr ''Category''" by simp
  from thm2 [THEN conjunct2, THEN spec, THEN mp, OF u]
  have "map_of (iterrows ?dq ! 0) (PStr ''Unit'') = map_of (zip (columns ?d0) (rows ?d0 ! 0)) (PStr ''Unit'')" .
  also have "\<dots> = Some PNone" by simp
  finally have 4: "map_of (iterrows ?dq ! 0) (PStr ''Unit'') = Some PNone" .
  have 5: "table_null_unit ! 1 ! 1 = PStr ''Smoke Detector''"
    by (simp add: table_null_unit_def)
  from e 1 2 3 4 5 show ?thesis unfolding pr by (intro conjI)
qed

text \<open>
  Table mode with an empty Unit cell: the row has the null under Unit, and the sheet
  leaves the cell blank, as the default of \<open>row.get('Unit', 'NOS')\<close> is for a missing
  label only. Without a Unit column the row has no unit at all.
\<close>

theorem table_mode_null_unit_counterexample:
  "parse_boq [] [table_null_unit] = Inr \<lparr>columns =
        [PStr ''Item No'', PStr ''Description'', PStr ''Quantity'', PStr ''Unit'', PStr ''Category''],
      rows = [[PStr ''1'', PStr ''Smoke Detector'', PStr ''5'', PNone, PStr ''Smoke Detectors'']]\<rparr>
   \<and> map (\<lambda>row. map_of row (PStr ''Unit'')) (iterrows (projr (parse_boq [] [table_null_unit]))) = [Some PNone]
   \<and> create_boq_sheet [] (iterrows (projr (parse_boq [] [table_null_unit]))) (5, 4) = Blank
   \<and> map (\<lambda>row. map_of row (PStr ''Unit'')) (iterrows (projr (parse_boq [] [table_no_unit]))) = [None]"
proof -
  have q: "parse_boq [] [table_null_unit] = Inr \<lparr>columns =
        [PStr ''Item No'', PStr ''Description'', PStr ''Quantity'', PStr ''Unit'', PStr ''Category''],
      rows = [[PStr ''1'', PStr ''Smoke Detector'', PStr ''5'', PNone, PStr ''Smoke Detectors'']]\<rparr>"
    by code_simp
  have r: "parse_boq [] [table_no_unit] = Inr \<lparr>columns =
        [PStr ''Item No'', PStr ''Description'', PStr ''Quantity'', PStr ''Category''],
      rows = [[PStr ''1'', PStr ''Smoke Detector'', PStr ''5'', PStr ''Smoke Detectors'']]\<rparr>"
    by code_simp
  have s: "create_boq_sheet [] (iterrows (projr (parse_boq [] [table_null_unit]))) (5, 4) = Blank"
    unfolding q
    by (simp add: iterrows_def create_boq_sheet_def Let_def write_boq_row_def row_get_def ws_cell_def
        write_headers_other)
  show ?thesis using q r s by (simp add: iterrows_def)
qed

section \<open>The specification records\<close>

lemma scan_model_patterns_none:
  "(\<forall>p \<in> set ps. search p text = None) \<Longrightarrow> scan_model_patterns ps text info = info"
  by (induction ps) simp_all

lemma scan_product_types_none:
  "(\<forall>t \<in> set ts. \<not> py_in t text_lower) \<Longrightarrow> scan_product_types ts text_lower info = info"
  by (induction ts) simp_all

lemma scan_model_patterns_other:
  "k \<noteq> ''Model Number'' \<Longrightarrow> map_of (scan_model_patterns ps text info) k = map_of info k"
  by (induction ps) (simp_all add: update_conv' split: option.splits)

lemma scan_product_types_other:
  "k \<noteq> ''Product Type'' \<Longrightarrow> map_of (scan_product_types ts text_lower info) k = map_of info k"
  by (induction ts) (simp_all add: update_conv')

lemma model_number_unmatched:
  assumes "\<forall>p \<in> set model_patterns. search p text = None"
  shows "dict_get (extract_product_info text) ''Model Number'' (PStr ''N/A'') = PStr ''''"
  using scan_model_patterns_none [OF assms, of info_init]
  by (simp add: dict_get_def extract_product_info_def Let_def scan_product_types_other info_init_def)

lemma product_type_unmatched:
  assumes "\<forall>t \<in> set product_types. \<not> py_in t (lower text)"
  shows "dict_get (extract_product_info text) ''Product Type'' (PStr ''N/A'') = PStr ''''"
  using scan_product_types_none [OF assms]
  by (simp add: dict_get_def extract_product_info_def Let_def scan_model_patterns_other info_init_def)

text \<open>The two keys are in the dictionary from the start, so the default is never used.\<close>

lemma scan_model_patterns_key:
  "map_of info ''Model Number'' \<noteq> None \<Longrightarrow>
   map_of (scan_model_patterns ps text info) ''Model Number'' \<noteq> None"
  by (induction ps) (simp_all add: update_conv' split: option.splits)

lemma scan_product_types_key:
  "map_of info ''Product Type'' \<noteq> None \<Longrightarrow>
   map_of (scan_product_types ts text_lower info) ''Product Type'' \<noteq> None"
  by (induction ts) (simp_all add: update_conv')

lemma product_info_model_key: "map_of (extract_product_info text) ''Model Number'' \<noteq> None"
proof -
  have "map_of info_init ''Model Number'' \<noteq> None" by (simp add: info_init_def)
  then have "map_of (scan_model_patterns model_patterns text info_init) ''Model Number'' \<noteq> None"
    by (rule scan_model_patterns_key)
  then show ?thesis
    by (simp only: extract_product_info_def Let_def) (simp add: scan_product_types_other)
qed

lemma product_info_type_key: "map_of (extract_product_info text) ''Product Type'' \<noteq> None"
proof -
  have "map_of info_init ''Product Type'' \<noteq> None" by (simp add: info_init_def)
  then have "map_of (scan_model_patterns model_patterns text info_init) ''Product Type'' \<noteq> None"
    by (simp add: scan_model_patterns_other)
  then show ?thesis
    by (simp only: extract_product_info_def Let_def) (rule scan_product_types_key)
qed

lemma parse_spec_take2:
  "take 2 (parse_spec list_set text tables) =
     [\<lparr>Category = ''Product Information'', Specification = ''Model Number'',
        Value = dict_get (extract_product_info text) ''Model Number'' (PStr ''N/A'')\<rparr>,
      \<lparr>Category = ''Product Information'', Specification = ''Product Type'',
        Value = dict_get (extract_product_info text) ''Product Type'' (PStr ''N/A'')\<rparr>]"
  by (simp add: parse_spec_def Let_def)

lemma parse_spec_length: "2 \<le> length (parse_spec list_set text tables)"
  by (simp add: parse_spec_def Let_def)

text \<open>
  C10. For every text the records of \<open>parse\<close> begin with the Product Information
  record Model Number and the Product Information record Product Type. Their values
  are the entries of the \<open>info\<close> dictionary, never the default \<open>N/A\<close> of the lookup:
  when no model pattern has a match the first value is the empty string, and when no
  product type phrase occurs the second is. So there are at least two records and the
  \<open>spec\<close> branch of the conversion never takes its "no data extracted" exit.
\<close>

theorem parse_spec_never_empty:
  "map (\<lambda>r. (Category r, Specification r)) (take 2 (parse_spec list_set text tables))
     = [(''Product Information'', ''Model Number''), (''Product Information'', ''Product Type'')]
   \<and> map_of (extract_product_info text) ''Model Number'' = Some (Value (parse_spec list_set text tables ! 0))
   \<and> map_of (extract_product_info text) ''Product Type'' = Some (Value (parse_spec list_set text tables ! 1))
   \<and> ((\<forall>p \<in> set model_patterns. search p text = None)
        \<longrightarrow> Value (parse_spec list_set text tables ! 0) = PStr '''')
   \<and> ((\<forall>t \<in> set product_types. \<not> py_in t (lower text))
        \<longrightarrow> Value (parse_spec list_set text tables ! 1) = PStr '''')
   \<and> 2 \<le> length (parse_spec list_set text tables)
   \<and> parse_spec list_set text tables \<noteq> []
   \<and> convert_spec list_set text tables \<noteq> No_data_extracted"
proof -
  let ?d = "parse_spec list_set text tables"
  have t: "take 2 ?d =
     [\<lparr>Category = ''Product Information'', Specification = ''Model Number'',
        Value = dict_get (extract_product_info text) ''Model Number'' (PStr ''N/A'')\<rparr>,
      \<lparr>Category = ''Product Information'', Specification = ''Product Type'',
        Value = dict_get (extract_product_info text) ''Product Type'' (PStr ''N/A'')\<rparr>]"
    by (rule parse_spec_take2)
  have l: "2 \<le> length ?d" by (rule parse_spec_length)
  have "?d ! 0 = take 2 ?d ! 0" "?d ! 1 = take 2 ?d ! 1" by simp_all
  then have v: "Value (?d ! 0) = dict_get (extract_product_info text) ''Model Number'' (PStr ''N/A'')"
    "Value (?d ! 1) = dict_get (extract_product_info text) ''Product Type'' (PStr ''N/A'')"
    unfolding t by simp_all
  have k0: "map_of (extract_product_info text) ''Model Number'' = Some (Value (?d ! 0))"
    using product_info_model_key [of "text"] unfolding v by (auto simp: dict_get_def)
  have k1: "map_of (extract_product_info text) ''Product Type'' = Some (Value (?d ! 1))"
    using product_info_type_key [of "text"] unfolding v by (auto simp: dict_get_def)
  have e: "?d \<noteq> []" using l by auto
  then have c: "convert_spec list_set text tables \<noteq> No_data_extracted"
    by (simp add: convert_spec_def Let_def)
  have m: "map (\<lambda>r. (Category r, Specification r)) (take 2 ?d)
     = [(''Product Information'', ''Model Number''), (''Product Information'', ''Product Type'')]"
    unfolding t by simp
  show ?thesis
    using m k0 k1 l e c model_number_unmatched [of "text"] product_type_unmatched [of "text"]
    unfolding v by blast
qed

theorem parse_spec_never_empty_witness:
  "parse_spec remdups ''hello'' [] =
     [\<lparr>Category = ''Product Information'', Specification = ''Model Number'', Value = PStr ''''\<rparr>,
      \<lparr>Category = ''Product Information'', Specification = ''Product Type'', Value = PStr ''''\<rparr>]
   \<and> Value (parse_spec remdups ''hello'' [] ! 0) = PStr ''''
   \<and> Value (parse_spec remdups ''hello'' [] ! 1) = PStr ''''"
proof -
  have 1: "\<forall>p \<in> set model_patterns. search p ''hello'' = None" by code_simp
  have 2: "\<forall>t \<in> set product_types. \<not> py_in t (lower ''hello'')" by code_simp
  have 3: "parse_spec remdups ''hello'' [] =
     [\<lparr>Category = ''Product Information'', Specification = ''Model Number'', Value = PStr ''''\<rparr>,
      \<lparr>Category = ''Product Information'', Specification = ''Product Type'', Value = PStr ''''\<rparr>]"
    by code_simp
  from parse_spec_never_empty [of remdups "''hello''" "[]"] 1 2
  have "Value (parse_spec remdups ''hello'' [] ! 0) = PStr ''''"
    "Value (parse_spec remdups ''hello'' [] ! 1) = PStr ''''"
    by blast+
  with 3 show ?thesis by blast
qed

section \<open>The model number\<close>









section \<open>The standards\<close>

subsection \<open>Upper case and the patterns\<close>

lemma upper_char_cases:
  obtains (up) "upper_char c = char_of ((of_char c :: nat) - 32)"
      "(97 \<le> (of_char c :: nat) \<and> (of_char c :: nat) \<le> 122)
       \<or> (224 \<le> (of_char c :: nat) \<and> (of_char c :: nat) \<le> 254 \<and> (of_char c :: nat) \<noteq> 247)"
    | (same) "upper_char c = c"
      "\<not> ((97 \<le> (of_char c :: nat) \<and> (of_char c :: nat) \<le> 122)
       \<or> (224 \<le> (of_char c :: nat) \<and> (of_char c :: nat) \<le> 254 \<and> (of_char c :: nat) \<noteq> 247))"
  by (auto simp: upper_char_def Let_def)

lemma of_char_upper:
  "(of_char (upper_char c) :: nat) =
     (if (97 \<le> (of_char c :: nat) \<and> (of_char c :: nat) \<le> 122)
         \<or> (224 \<le> (of_char c :: nat) \<and> (of_char c :: nat) \<le> 254 \<and> (of_char c :: nat) \<noteq> 247)
      then of_char c - 32 else of_char c)"
  by (auto simp: upper_char_def Let_def)

lemma of_char_lower:
  "(of_char (lower_char c) :: nat) =
     (if (65 \<le> (of_char c :: nat) \<and> (of_char c :: nat) \<le> 90)
         \<or> (192 \<le> (of_char c :: nat) \<and> (of_char c :: nat) \<le> 222 \<and> (of_char c :: nat) \<noteq> 215)
      then of_char c + 32 else of_char c)"
  by (auto simp: lower_char_def Let_def)

lemma char_eq_of_char: "c = d \<longleftrightarrow> (of_char c :: nat) = of_char d"
  by simp

lemma lower_upper_char: "lower_char (upper_char c) = lower_char c"
  by (subst char_eq_of_char) (auto simp: of_char_lower of_char_upper)


lemma upper_upper_char: "upper_char (upper_char c) = upper_char c"
  by (subst char_eq_of_char) (auto simp: of_char_upper)

lemma is_space_upper: "is_space (upper_char c) = is_space c"
  by (auto simp: is_space_def of_char_upper Let_def)

lemma is_digit_upper: "is_digit (upper_char c) = is_digit c"
  by (auto simp: is_digit_def of_char_upper Let_def)

lemma is_ascii_letter_upper: "is_ascii_letter (upper_char c) = is_ascii_letter c"
  by (auto simp: is_ascii_letter_def of_char_upper Let_def)

lemma upper_char_newline: "upper_char c = CHR 0x0A \<longleftrightarrow> c = CHR 0x0A"
  by (subst (1 2) char_eq_of_char) (auto simp: of_char_upper)


lemma upper_upper: "upper (upper s) = upper s"
  by (simp add: upper_def upper_upper_char)

text \<open>A case-blind pattern matches the upper-cased string as it matches the string.\<close>

lemma length_upper [simp]: "length (upper s) = length s"
  by (simp add: upper_def)

lemma fst_upper_outcome [simp]: "fst (upper_outcome x) = upper (fst x)"
  and snd_upper_outcome [simp]: "snd (upper_outcome x) = upper_groups (snd x)"
  by (simp_all add: upper_outcome_def)

lemma concat_map_upper:
  assumes "\<And>x. k' (upper_outcome x) = map upper_outcome (k x)"
  shows "concat (map k' (map upper_outcome xs)) = map upper_outcome (concat (map k xs))"
  by (induction xs) (simp_all add: assms)

lemma star_upper:
  assumes "\<And>s g. f (upper s) (upper_groups g) = map upper_outcome (f s g)"
  shows "star f n (upper s) (upper_groups g) = map upper_outcome (star f n s g)"
proof (induction n arbitrary: s g)
  case 0
  then show ?case by (simp add: upper_outcome_def)
next
  case (Suc n)
  define k where "k = (\<lambda>x :: string \<times> groups.
      if length (fst x) < length s then star f n (fst x) (snd x) else [])"
  have k: "k (upper_outcome x) = map upper_outcome (k x)" for x
    by (simp add: k_def Suc.IH)
  have 1: "star f (Suc n) s g = concat (map k (f s g)) @ [(s, g)]"
    by (simp add: k_def case_prod_unfold)
  have 2: "star f (Suc n) (upper s) (upper_groups g)
      = concat (map k (map upper_outcome (f s g))) @ [(upper s, upper_groups g)]"
    by (simp add: k_def case_prod_unfold assms)
  show ?case
    unfolding 1 2 concat_map_upper [of k k, OF k] by (simp add: upper_outcome_def)
qed

lemma lazy_star_upper:
  assumes "\<And>s g. f (upper s) (upper_groups g) = map upper_outcome (f s g)"
  shows "lazy_star f n (upper s) (upper_groups g) = map upper_outcome (lazy_star f n s g)"
proof (induction n arbitrary: s g)
  case 0
  then show ?case by (simp add: upper_outcome_def)
next
  case (Suc n)
  define k where "k = (\<lambda>x :: string \<times> groups.
      if length (fst x) < length s then lazy_star f n (fst x) (snd x) else [])"
  have k: "k (upper_outcome x) = map upper_outcome (k x)" for x
    by (simp add: k_def Suc.IH)
  have 1: "lazy_star f (Suc n) s g = (s, g) # concat (map k (f s g))"
    by (simp add: k_def case_prod_unfold)
  have 2: "lazy_star f (Suc n) (upper s) (upper_groups g)
      = (upper s, upper_groups g) # concat (map k (map upper_outcome (f s g)))"
    by (simp add: k_def case_prod_unfold assms)
  show ?case
    unfolding 1 2 concat_map_upper [of k k, OF k] by (simp add: upper_outcome_def)
qed

text \<open>
  A case-blind pattern matches the upper-cased string the way it matches the string.
\<close>

lemma run_upper:
  "case_blind r \<Longrightarrow> run r (upper s) (upper_groups g) = map upper_outcome (run r s g)"
proof (induction r arbitrary: s g)
  case (Sym P)
  then show ?case by (cases s) (simp_all add: upper_def upper_outcome_def)
next
  case Eps
  then show ?case by (simp add: upper_outcome_def)
next
  case (Seq r1 r2)
  then have 1: "run r1 (upper s) (upper_groups g) = map upper_outcome (run r1 s g)"
    and 2: "\<And>s g. run r2 (upper s) (upper_groups g) = map upper_outcome (run r2 s g)"
    by simp_all
  define k where "k = (\<lambda>x :: string \<times> groups. run r2 (fst x) (snd x))"
  have k: "k (upper_outcome x) = map upper_outcome (k x)" for x
    by (simp add: k_def 2)
  have eq: "run (Seq r1 r2) s g = concat (map k (run r1 s g))" for s g
    by (simp add: k_def case_prod_unfold)
  show ?case
    unfolding eq 1 by (rule concat_map_upper [of k k, OF k])
next
  case (Alt r1 r2)
  then show ?case by simp
next
  case (Star r)
  then show ?case using star_upper [of "run r" "length s" s g] by simp
next
  case (LazyStar r)
  then show ?case using lazy_star_upper [of "run r" "length s" s g] by simp
next
  case (Group n r)
  then have 1: "run r (upper s) (upper_groups g) = map upper_outcome (run r s g)" by simp
  have "(upper (fst x), (n, take (length s - length (fst x)) (upper s)) # upper_groups (snd x))
      = upper_outcome (fst x, (n, take (length s - length (fst x)) s) # snd x)" for x
    by (simp add: upper_outcome_def upper_groups_def upper_def take_map)
  then show ?case
    by (simp add: 1 comp_def case_prod_unfold)
next
  case Eol
  have "upper s = [] \<longleftrightarrow> s = []" by (simp add: upper_def)
  moreover have "upper s = [CHR 0x0A] \<longleftrightarrow> s = [CHR 0x0A]"
    by (cases s) (auto simp: upper_def upper_char_newline)
  ultimately show ?case by (simp add: upper_outcome_def)
qed

lemma match_at_upper:
  assumes "case_blind r"
  shows "match_at r (upper s) = map_option upper_outcome (match_at r s)"
proof -
  have "run r (upper s) [] = map upper_outcome (run r s [])"
    using run_upper [OF assms, of s "[]"] by (simp add: upper_groups_def)
  then show ?thesis
    by (cases "run r s []")
      (auto simp: match_at_def upper_outcome_def upper_def take_map split: list.splits)
qed

lemma findall_steps_upper:
  assumes "case_blind r"
  shows "findall_steps n r (upper s) = map upper (findall_steps n r s)"
proof (induction n arbitrary: s)
  case 0
  then show ?case by simp
next
  case (Suc n)
  define t where "t = (\<lambda>s. case s of [] \<Rightarrow> [] | c # cs \<Rightarrow> findall_steps n r cs)"
  have t: "t (upper s) = map upper (t s)"
    using Suc.IH by (cases s) (simp_all add: t_def upper_def)
  have step: "findall_steps (Suc n) r s =
      (case match_at r s of
         None \<Rightarrow> t s
       | Some m \<Rightarrow> if fst m = [] then [] # t s
                   else fst m # findall_steps n r (drop (length (fst m)) s))" for s
    by (cases "match_at r s") (simp_all add: t_def)
  show ?case
  proof (cases "match_at r s")
    case None
    then have "match_at r (upper s) = None" by (simp add: match_at_upper [OF assms])
    with None t show ?thesis unfolding step by simp
  next
    case (Some m)
    then have m: "match_at r (upper s) = Some (upper_outcome m)"
      by (simp add: match_at_upper [OF assms])
    have d: "drop (length (fst m)) (upper s) = upper (drop (length (fst m)) s)"
      by (simp add: upper_def drop_map)
    have e: "upper (fst m) = [] \<longleftrightarrow> fst m = []" "upper [] = []" by (simp_all add: upper_def)
    show ?thesis
      unfolding step Some m using t by (simp add: d e Suc.IH)
  qed
qed

lemma findall_upper: "case_blind r \<Longrightarrow> findall r (upper s) = map upper (findall r s)"
  by (simp only: findall_def length_upper findall_steps_upper)

subsection \<open>\<open>findall\<close> along a string\<close>






text \<open>The standards patterns are case-blind, so the text may be upper-cased first.\<close>

lemma ci_case_blind: "case_blind (ci c)"
  by (simp add: ci_def lower_upper_char)

lemma lit_case_blind: "case_blind (lit s)"
  by (induction s) (simp_all add: ci_case_blind)

lemma standard_patterns_case_blind: "\<forall>p \<in> set standard_patterns. case_blind p"
  by (simp add: standard_patterns_def ci_case_blind Plus_def Opt_def space_def digit_def
      is_space_upper is_digit_upper is_ascii_letter_upper)

lemma collect_standards_upper: "collect_standards (upper text) = collect_standards text"
proof -
  have "map upper (findall p (upper text)) = map upper (findall p text)"
    if "p \<in> set standard_patterns" for p
  proof -
    from that standard_patterns_case_blind have "case_blind p" by blast
    then have "findall p (upper text) = map upper (findall p text)" by (rule findall_upper)
    then show ?thesis by (simp add: upper_upper)
  qed
  then show ?thesis by (simp add: collect_standards_def cong: map_cong)
qed


subsection \<open>The passage of the example\<close>











subsection \<open>The Compliance record\<close>






end
